theory Spec2Isabelle
  imports Complex_Main "HOL-Library.Word"
begin

unbundle bit_operations_syntax

section \<open>Single-precision values\<close>

text \<open>
  The event buffer and the memory-mapped event file hold IEEE-754 binary32 values.  A
  \<open>float\<close> is modelled by its 32-bit pattern, which is what both the buffer cells and
  the file words contain; the arithmetic the source performs on such values
  (\<open>std::abs\<close>, \<open><\<close>, \<open>1.f / rad\<close>, \<open>-\<close>, \<open>+\<close>, \<open>std::floor\<close>, \<open>std::ceil\<close>, the
  conversion to \<open>unsigned\<close>) is written out on the bit pattern, rounding to nearest
  with ties to even.  The payload of a generated NaN is not modelled beyond being a NaN.
\<close>

type_synonym float = "32 word"

definition fmag :: "float \<Rightarrow> int" where
  "fmag w = uint (w AND 0x7FFFFFFF)"

definition fsign :: "float \<Rightarrow> bool" where
  "fsign w = bit w 31"

definition isnan :: "float \<Rightarrow> bool" where
  "isnan w = (0x7F800000 < fmag w)"

definition isinf :: "float \<Rightarrow> bool" where
  "isinf w = (fmag w = 0x7F800000)"

definition mk_float :: "bool \<Rightarrow> int \<Rightarrow> float" where
  "mk_float s m = (if s then 0x80000000 else 0) OR word_of_int m"

definition qnan :: float where
  "qnan = 0x7FC00000"

text \<open>
  The magnitude of a finite value as an integer multiple of the smallest subnormal
  \<open>2^-149\<close> (exponent field 0 is subnormal), and the same with its sign.
\<close>

definition fint :: "float \<Rightarrow> int" where
  "fint w = (let e = fmag w div 2 ^ 23; m = fmag w mod 2 ^ 23
             in if e = 0 then m else (2 ^ 23 + m) * 2 ^ nat (e - 1))"

definition fsint :: "float \<Rightarrow> int" where
  "fsint w = (if fsign w then - fint w else fint w)"

function ilog2 :: "int \<Rightarrow> nat" where
  "ilog2 n = (if n < 2 then 0 else Suc (ilog2 (n div 2)))"
  by pat_completeness auto
termination
  by (relation "measure nat") auto

declare ilog2.simps [simp del]

text \<open>
  Rounding the non-negative fraction \<open>n / d\<close> to the magnitude bits of the nearest
  binary32 value, ties to even.  \<open>x / d\<close> is the fraction in units of \<open>2^-149\<close>,
  \<open>2^e\<close> is the spacing of the representable values around it in those units, and
  \<open>q\<close>, \<open>r\<close> are quotient and remainder of the division by that spacing.  A mantissa
  that rounds up to \<open>2^24\<close> carries into the exponent field by the addition; anything
  at or above the bit pattern of infinity is infinity.
\<close>

definition frnd_frac :: "int \<Rightarrow> int \<Rightarrow> int" where
  "frnd_frac n d =
     (let x = n * 2 ^ 149; e = ilog2 (x div d) - 23; y = d * 2 ^ e;
          q = x div y; r = x mod y
      in min 0x7F800000
           (int e * 2 ^ 23 +
            (if 2 * r < y then q else if y < 2 * r then q + 1
             else if even q then q else q + 1)))"

text \<open>The float nearest to a rational: the value of a decimal literal of the source.\<close>

definition frnd :: "rat \<Rightarrow> float" where
  "frnd x = (case quotient_of x of (n, d) \<Rightarrow> mk_float (n < 0) (frnd_frac \<bar>n\<bar> d))"

definition fabs :: "float \<Rightarrow> float" where
  "fabs w = w AND 0x7FFFFFFF"

definition fneg :: "float \<Rightarrow> float" where
  "fneg a = a XOR 0x80000000"

text \<open>
  \<open>a < b\<close> on floats: false when either side is a NaN; otherwise sign-magnitude bit
  patterns are ordered like the values they denote, with \<open>-0 = +0\<close>.
\<close>

definition fkey :: "float \<Rightarrow> int" where
  "fkey w = (if fsign w then - fmag w else fmag w)"

definition flt :: "float \<Rightarrow> float \<Rightarrow> bool" where
  "flt a b = (\<not> isnan a \<and> \<not> isnan b \<and> fkey a < fkey b)"

definition fdiv :: "float \<Rightarrow> float \<Rightarrow> float" where
  "fdiv a b =
     (if isnan a \<or> isnan b then qnan
      else let s = (fsign a \<noteq> fsign b) in
        if isinf a then (if isinf b then qnan else mk_float s 0x7F800000)
        else if isinf b then mk_float s 0
        else if fmag b = 0 then (if fmag a = 0 then qnan else mk_float s 0x7F800000)
        else mk_float s (frnd_frac (fint a) (fint b)))"

definition fadd :: "float \<Rightarrow> float \<Rightarrow> float" where
  "fadd a b =
     (if isnan a \<or> isnan b then qnan
      else if isinf a then (if isinf b \<and> fsign a \<noteq> fsign b then qnan else a)
      else if isinf b then b
      else let r = fsint a + fsint b in
        if r = 0 then mk_float (fsign a \<and> fsign b) 0
        else mk_float (r < 0) (frnd_frac \<bar>r\<bar> (2 ^ 149)))"

definition fsub :: "float \<Rightarrow> float \<Rightarrow> float" where
  "fsub a b = (if isnan a \<or> isnan b then qnan else fadd a (fneg b))"

text \<open>\<open>std::floor\<close> and \<open>std::ceil\<close>: a zero result keeps the sign of the argument.\<close>

definition ffloor :: "float \<Rightarrow> float" where
  "ffloor a = (if isnan a \<or> isinf a then a
               else mk_float (fsign a) (frnd_frac \<bar>fsint a div 2 ^ 149\<bar> 1))"

definition fceil :: "float \<Rightarrow> float" where
  "fceil a = (if isnan a \<or> isinf a then a
              else mk_float (fsign a) (frnd_frac \<bar>- (- fsint a div 2 ^ 149)\<bar> 1))"

text \<open>
  Conversion of a float to \<open>unsigned\<close> truncates towards zero; the behaviour is
  undefined (\<open>None\<close>) when the truncated value is not representable.
\<close>

definition float_to_uint :: "float \<Rightarrow> 32 word option" where
  "float_to_uint a =
     (if isnan a \<or> isinf a then None
      else let t = (if fsign a then - (fint a div 2 ^ 149) else fint a div 2 ^ 149)
           in if 0 \<le> t \<and> t < 2 ^ 32 then Some (word_of_int t) else None)"

text \<open>\<open>1.f\<close> and \<open>std::numeric_limits<float>::epsilon()\<close>, which is \<open>2^-23\<close>.\<close>

definition one_f :: float where
  "one_f = 0x3F800000"

definition epsilon :: float where
  "epsilon = 0x34000000"


section \<open>The event buffer (\<open>EventSource::Impl\<close>)\<close>

datatype Vector3f = Vector3f (vx: float) (vy: float) (vz: float)

datatype AABBf = AABBf (getMin: Vector3f) (getMax: Vector3f)

text \<open>\<open>std::min (a, b)\<close> is \<open>(b < a) ? b : a\<close>, \<open>std::max (a, b)\<close> is \<open>(a < b) ? b : a\<close>.\<close>

definition fmin :: "float \<Rightarrow> float \<Rightarrow> float" where
  "fmin a b = (if flt b a then b else a)"

definition fmax :: "float \<Rightarrow> float \<Rightarrow> float" where
  "fmax a b = (if flt a b then b else a)"

text \<open>
  Modelled from the spec: \<open>AABBf::merge\<close> belongs to the vector library the source
  includes and is not part of the sources at hand.  The spec describes the bounding box
  as an axis-aligned min/max pair over the positions merged in, which only grows; the
  merge of a point is therefore the componentwise minimum and maximum.
\<close>

definition merge :: "AABBf \<Rightarrow> Vector3f \<Rightarrow> AABBf" where
  "merge box p =
     AABBf (Vector3f (fmin (vx (getMin box)) (vx p)) (fmin (vy (getMin box)) (vy p))
                     (fmin (vz (getMin box)) (vz p)))
           (Vector3f (fmax (vx (getMax box)) (vx p)) (fmax (vy (getMax box)) (vy p))
                     (fmax (vz (getMax box)) (vz p)))"

text \<open>
  A cell of the storage block is \<open>None\<close> as long as nothing has been stored in it since
  the block was obtained from \<open>posix_memalign\<close>, which does not initialise memory.
\<close>

type_synonym cell = "float option"

datatype exn = Bad_alloc | Runtime_error string | Out_of_range string

text \<open>
  The members of \<open>EventSource::Impl\<close>.  The spatial index, which is compiled in with
  \<open>USE_BOOST_GEOMETRY\<close>, is represented by the pairs of position and ordinal it holds.
\<close>

record impl =
  dt :: float
  duration :: float
  currentTime :: float
  cutOffDistance :: float
  alignBoundary :: nat
  numEvents :: nat
  allocSize :: nat
  events :: "cell list"
  boundingBox :: AABBf
  rtree :: "(Vector3f \<times> nat) list"

text \<open>The enumeration \<open>EventOffsets\<close>.\<close>

definition POSX :: nat where "POSX = 0"
definition POSY :: nat where "POSY = 1"
definition POSZ :: nat where "POSZ = 2"
definition RADIUS :: nat where "RADIUS = 3"
definition VALUE :: nat where "VALUE = 4"
definition NUM_OFFSETS :: nat where "NUM_OFFSETS = 5"

text \<open>
  The constructor: the three configuration values come from the URI handler, and the
  bounding box is the default-constructed box of the vector library.
\<close>

definition Impl :: "float \<Rightarrow> float \<Rightarrow> float \<Rightarrow> AABBf \<Rightarrow> impl" where
  "Impl getDt getDuration getCutoffDistance box0 =
     \<lparr> dt = getDt, duration = getDuration, currentTime = fneg one_f,
       cutOffDistance = getCutoffDistance, alignBoundary = 32, numEvents = 0,
       allocSize = 0, events = [], boundingBox = box0, rtree = [] \<rparr>"

text \<open>
  What the allocator answers to the request of one call of \<open>resize\<close>:
  \<open>posix_memalign\<close> succeeds; it fails and the \<open>calloc\<close> fallback succeeds; both fail.
\<close>

datatype alloc_outcome = Memalign_ok | Calloc_ok | Alloc_failed

text \<open>
  \<open>resize\<close>.  The sizes are \<open>size_t\<close>: the products wrap at \<open>2^64\<close>, while
  \<open>calloc\<close> itself refuses a product that does not fit.  When the allocation throws,
  \<open>numEvents\<close> and \<open>allocSize\<close> have already been assigned.
\<close>

definition resize :: "alloc_outcome \<Rightarrow> nat \<Rightarrow> impl \<Rightarrow> exn option \<times> impl" where
  "resize a numEvents' s =
     (let s1 = s\<lparr>numEvents := numEvents'\<rparr> in
      if numEvents' < allocSize s1 then (None, s1)
      else
        let s2 = s1\<lparr>allocSize := numEvents'\<rparr>;
            size = (numEvents s2 * NUM_OFFSETS) mod 2 ^ 64
        in case a of
             Memalign_ok \<Rightarrow>
               (None, s2\<lparr>events := replicate (((size * 4) mod 2 ^ 64) div 4) None\<rparr>)
           | Calloc_ok \<Rightarrow>
               if size * 4 < 2 ^ 64
               then (None, s2\<lparr>events := replicate size (Some 0)\<rparr>)
               else (Some Bad_alloc, s2)
           | Alloc_failed \<Rightarrow> (Some Bad_alloc, s2))"

text \<open>
  A pointer into the storage block is the suffix of the block that starts there.
  Reading past the end of the block has no defined value.
\<close>

definition peek :: "cell list \<Rightarrow> nat \<Rightarrow> cell" where
  "peek p i = (if i < length p then p ! i else None)"

definition getPositionsX :: "impl \<Rightarrow> cell list" where
  "getPositionsX s = drop (numEvents s * POSX) (events s)"

definition getPositionsY :: "impl \<Rightarrow> cell list" where
  "getPositionsY s = drop (numEvents s * POSY) (events s)"

definition getPositionsZ :: "impl \<Rightarrow> cell list" where
  "getPositionsZ s = drop (numEvents s * POSZ) (events s)"

definition getRadii :: "impl \<Rightarrow> cell list" where
  "getRadii s = drop (numEvents s * RADIUS) (events s)"

definition getValues :: "impl \<Rightarrow> cell list" where
  "getValues s = drop (numEvents s * VALUE) (events s)"

text \<open>
  A store \<open>events.get()[k] = v\<close>.  The source does not check \<open>k\<close> against the block;
  every statement below about a store is made for a buffer whose block holds
  \<open>5 * allocSize\<close> cells with \<open>numEvents \<le> allocSize\<close>, where all stores of \<open>update\<close>
  are inside the block.
\<close>

definition poke :: "nat \<Rightarrow> float \<Rightarrow> impl \<Rightarrow> impl" where
  "poke k v s = s\<lparr>events := (events s)[k := Some v]\<rparr>"

definition update :: "nat \<Rightarrow> Vector3f \<Rightarrow> float \<Rightarrow> float \<Rightarrow> impl \<Rightarrow> impl" where
  "update i pos rad val s =
     (let size = numEvents s in
      if size \<le> i then s
      else
        let s1 = s\<lparr>boundingBox := merge (boundingBox s) pos\<rparr>;
            s2 = poke (i + size * POSX) (vx pos) s1;
            s3 = poke (i + size * POSY) (vy pos) s2;
            s4 = poke (i + size * POSZ) (vz pos) s3;
            s5 = (if flt epsilon (fabs rad)
                  then poke (i + size * RADIUS) (fdiv one_f rad) s4 else s4);
            s6 = poke (i + size * VALUE) val s5
        in s6\<lparr>rtree := []\<rparr>)"

definition setBoundingBox :: "AABBf \<Rightarrow> impl \<Rightarrow> impl" where
  "setBoundingBox box s = s\<lparr>boundingBox := box\<rparr>"

definition block_ok :: "impl \<Rightarrow> bool" where
  "block_ok s = (length (events s) = allocSize s * NUM_OFFSETS \<and> numEvents s \<le> allocSize s)"


section \<open>Chunked loading\<close>

type_synonym size_t = "64 word"

text \<open>
  \<open>getNumChunks\<close> and \<open>_load\<close> are virtual and implemented by the concrete loader:
  the reported chunk count and the loader's \<open>_load\<close> are parameters.  The result pairs
  the exception or the returned count with the buffer afterwards.
\<close>

definition load ::
  "size_t \<Rightarrow> (size_t \<Rightarrow> size_t \<Rightarrow> impl \<Rightarrow> (exn + int) \<times> impl) \<Rightarrow>
   size_t \<Rightarrow> size_t \<Rightarrow> impl \<Rightarrow> (exn + int) \<times> impl" where
  "load getNumChunks load' chunkIndex numChunks s =
     (if numChunks = 0
      then (Inl (Runtime_error ''EventSource::load: numChunks must be > 0''), s)
      else if chunkIndex + numChunks > getNumChunks
      then (Inl (Out_of_range ''EventSource::load: Out of range''), s)
      else load' chunkIndex numChunks s)"

definition load_all ::
  "size_t \<Rightarrow> (size_t \<Rightarrow> size_t \<Rightarrow> impl \<Rightarrow> (exn + int) \<times> impl) \<Rightarrow>
   impl \<Rightarrow> (exn + int) \<times> impl" where
  "load_all getNumChunks load' s = load getNumChunks load' 0 getNumChunks s"


section \<open>Frame range\<close>

datatype SourceType = event | frame

text \<open>
  \<open>Vector2ui (a, b)\<close> with float arguments converts both to \<open>unsigned\<close>.
\<close>

definition Vector2ui :: "float \<Rightarrow> float \<Rightarrow> (32 word \<times> 32 word) option" where
  "Vector2ui a b =
     (case (float_to_uint a, float_to_uint b) of
        (Some x, Some y) \<Rightarrow> Some (x, y)
      | _ \<Rightarrow> None)"

text \<open>
  \<open>_getTimeRange\<close> and \<open>_getType\<close> are virtual: the interval and the source type
  they return are parameters.
\<close>

definition getFrameRange ::
  "SourceType \<Rightarrow> float \<times> float \<Rightarrow> impl \<Rightarrow> (32 word \<times> 32 word) option" where
  "getFrameRange ty interval s =
     (case ty of
        event \<Rightarrow>
          let endTime = fsub (snd interval) (duration s) in
          if flt endTime (fst interval) then Some (0, 0)
          else Vector2ui (ffloor (fdiv (fst interval) (dt s)))
                         (fadd (ffloor (fdiv endTime (dt s))) one_f)
      | frame \<Rightarrow>
          Vector2ui (ffloor (fdiv (fst interval) (dt s)))
                    (fceil (fdiv (snd interval) (dt s))))"


section \<open>Event files\<close>

text \<open>
  A file is the sequence of its bytes.  The memory-mapped view \<open>iData\<close> / \<open>fData\<close>
  reads four consecutive bytes as one 32-bit word, least significant byte first; a
  float of the file is the same word.
\<close>

definition magic :: "32 word" where "magic = 0xfebf"
definition version :: "32 word" where "version = 1"

text \<open>
  \<open>_getBinarySize\<close>.  The event counts it is applied to are counts of events of an
  existing buffer or file, far below the range where the \<open>size_t\<close> product wraps.
\<close>

definition getBinarySize :: "nat \<Rightarrow> nat" where
  "getBinarySize numEvents' = numEvents' * 5 * 4 + 4 + 4"

definition byte :: "char \<Rightarrow> 32 word" where
  "byte c = of_nat (of_char c)"

definition word_at :: "string \<Rightarrow> nat \<Rightarrow> 32 word" where
  "word_at file k =
     byte (file ! (4 * k)) OR push_bit 8 (byte (file ! (4 * k + 1))) OR
     push_bit 16 (byte (file ! (4 * k + 2))) OR push_bit 24 (byte (file ! (4 * k + 3)))"

definition bytes_of :: "32 word \<Rightarrow> string" where
  "bytes_of w = [char_of (unat w), char_of (unat (drop_bit 8 w)),
                 char_of (unat (drop_bit 16 w)), char_of (unat (drop_bit 24 w))]"

text \<open>
  \<open>readBinary\<close> maps an existing file.  Every word it reads lies inside the mapping:
  word 0 is read when \<open>nElems\<close> is not 0, word 1 when \<open>1 < nElems\<close>, and the loop
  reads the words \<open>2, \<dots>, 5 * numEvents_ + 1\<close>.
\<close>

definition isBinary :: "string \<Rightarrow> bool" where
  "isBinary file = (word_at file 0 = magic)"

function readBinary_loop :: "string \<Rightarrow> nat \<Rightarrow> nat \<Rightarrow> nat \<Rightarrow> impl \<Rightarrow> impl" where
  "readBinary_loop file numEvents' i index s =
     (if i < numEvents'
      then readBinary_loop file numEvents' (i + 1) (index + 5)
             (update i (Vector3f (word_at file index) (word_at file (index + 1))
                                 (word_at file (index + 2)))
                     (word_at file (index + 3)) (word_at file (index + 4)) s)
      else s)"
  by pat_completeness auto
termination
  by (relation "measure (\<lambda>(file, n, i, index, s). n - i)") auto

declare readBinary_loop.simps [simp del]

definition readBinary :: "(nat \<Rightarrow> alloc_outcome) \<Rightarrow> string \<Rightarrow> impl \<Rightarrow> (exn + bool) \<times> impl" where
  "readBinary alloc file s =
     (let size = length file; nElems = size div 4 in
      if nElems = 0 then (Inr False, s)
      else if \<not> isBinary file then (Inr False, s)
      else if 1 \<ge> nElems \<or> word_at file 1 \<noteq> version then (Inr False, s)
      else
        let index = 2; numEvents' = (nElems - index) div 5 in
        if getBinarySize numEvents' < size then (Inr False, s)
        else case resize (alloc numEvents') numEvents' s of
               (Some e, s') \<Rightarrow> (Inl e, s')
             | (None, s') \<Rightarrow> (Inr True, readBinary_loop file numEvents' 0 index s'))"

text \<open>
  \<open>write\<close> with \<open>EventFileFormat::binary\<close>, which returns \<open>true\<close>: the bytes of the
  file it produces.  There are none (\<open>None\<close>) when one of the cells it copies has never
  been written.  The case \<open>EventFileFormat::ascii\<close> prints floats with the stream's
  default formatting, which is not modelled.
\<close>

definition event_cells :: "impl \<Rightarrow> nat \<Rightarrow> cell list" where
  "event_cells s i = [peek (getPositionsX s) i, peek (getPositionsY s) i,
                      peek (getPositionsZ s) i, peek (getRadii s) i, peek (getValues s) i]"

fun those_cells :: "cell list \<Rightarrow> float list option" where
  "those_cells [] = Some []"
| "those_cells (None # cs) = None"
| "those_cells (Some v # cs) = (case those_cells cs of None \<Rightarrow> None | Some vs \<Rightarrow> Some (v # vs))"

definition write_binary :: "impl \<Rightarrow> string option" where
  "write_binary s =
     (case those_cells (concat (map (event_cells s) [0..<numEvents s])) of
        None \<Rightarrow> None
      | Some vs \<Rightarrow> Some (concat (map bytes_of (magic # version # vs))))"

text \<open>
  The text reader works on a \<open>std::ifstream\<close>: the characters not yet read and the two
  state bits the source depends on.  \<open>std::getline\<close> does nothing but set \<open>failbit\<close>
  on a stream that is not good; otherwise it extracts characters up to and including
  the next newline, which it drops; when it reaches the end of the file instead it sets
  \<open>eofbit\<close>, and \<open>failbit\<close> as well if it has extracted nothing.  Closing a stream does
  not clear its state bits.
\<close>

record ifstream =
  buf :: string
  eofbit :: bool
  failbit :: bool

definition good :: "ifstream \<Rightarrow> bool" where
  "good f = (\<not> eofbit f \<and> \<not> failbit f)"

definition ifstream_open :: "string \<Rightarrow> ifstream" where
  "ifstream_open content = \<lparr> buf = content, eofbit = False, failbit = False \<rparr>"

definition newline :: char where "newline = CHR 0x0A"

definition getline :: "ifstream \<Rightarrow> string \<Rightarrow> ifstream \<times> string" where
  "getline f line =
     (if \<not> good f then (f\<lparr>failbit := True\<rparr>, line)
      else
        let l = takeWhile (\<lambda>c. c \<noteq> newline) (buf f) in
        case dropWhile (\<lambda>c. c \<noteq> newline) (buf f) of
          [] \<Rightarrow> (f\<lparr>buf := [], eofbit := True, failbit := (l = [])\<rparr>, l)
        | c # rest \<Rightarrow> (f\<lparr>buf := rest\<rparr>, l))"

definition close :: "ifstream \<Rightarrow> ifstream" where
  "close f = f"

text \<open>
  \<open>iss >> token\<close> splits the line at white space (\<open>std::isspace\<close> in the C locale:
  blank, tab, newline, vertical tab, form feed, carriage return).
\<close>

definition isspace :: "char \<Rightarrow> bool" where
  "isspace c = (c = CHR '' '' \<or> (9 \<le> (of_char c :: nat) \<and> (of_char c :: nat) \<le> 13))"

function tokens :: "string \<Rightarrow> string list" where
  "tokens s =
     (case dropWhile isspace s of
        [] \<Rightarrow> []
      | c # cs \<Rightarrow> takeWhile (\<lambda>c. \<not> isspace c) (c # cs)
                 # tokens (dropWhile (\<lambda>c. \<not> isspace c) (c # cs)))"
  by pat_completeness auto
termination
proof (relation "measure length")
  fix s c cs
  assume a: "dropWhile isspace s = c # cs"
  have "\<not> isspace c" using a by (metis hd_dropWhile list.distinct(1) list.sel(1))
  then have "length (dropWhile (\<lambda>c. \<not> isspace c) (c # cs)) \<le> length cs"
    by (simp add: length_dropWhile_le)
  also have "length cs < length (dropWhile isspace s)" using a by simp
  also have "\<dots> \<le> length s" by (rule length_dropWhile_le)
  finally show "(dropWhile (\<lambda>c. \<not> isspace c) (c # cs), s) \<in> measure length" by simp
qed simp

declare tokens.simps [simp del]

text \<open>
  \<open>c_str\<close> hands the characters before the first NUL to the C library.  \<open>atoi\<close>
  skips white space, reads an optional sign and the decimal digits that follow; a value
  outside the range of \<open>int\<close> is undefined in C and kept as it is here.  The \<open>int\<close> is
  then converted to the \<open>size_t\<close> parameter of \<open>resize\<close>.
\<close>

definition c_str :: "string \<Rightarrow> string" where
  "c_str s = takeWhile (\<lambda>c. c \<noteq> CHR 0x00) s"

definition isdigit :: "char \<Rightarrow> bool" where
  "isdigit c = (48 \<le> (of_char c :: nat) \<and> (of_char c :: nat) \<le> 57)"

fun atoi_digits :: "int \<Rightarrow> string \<Rightarrow> int" where
  "atoi_digits acc [] = acc"
| "atoi_digits acc (c # cs) =
     (if isdigit c then atoi_digits (10 * acc + (int (of_char c) - 48)) cs else acc)"

definition atoi :: "string \<Rightarrow> int" where
  "atoi s =
     (case dropWhile isspace s of
        [] \<Rightarrow> 0
      | c # cs \<Rightarrow> if c = CHR ''-'' then - atoi_digits 0 cs
                 else if c = CHR ''+'' then atoi_digits 0 cs
                 else atoi_digits 0 (c # cs))"

definition size_t_of_int :: "int \<Rightarrow> nat" where
  "size_t_of_int v = nat (v mod 2 ^ 64)"

text \<open>
  \<open>line.find (pat) != npos\<close>; the substring after \<open>line.find_last_of (" \t")\<close>, which
  is the whole line if there is no blank or tab; and \<open>line[0]\<close>, which is the NUL
  character for an empty line.
\<close>

fun find_str :: "string \<Rightarrow> string \<Rightarrow> bool" where
  "find_str pat [] = (pat = [])"
| "find_str pat (c # cs) = (take (length pat) (c # cs) = pat \<or> find_str pat cs)"

definition after_last_blank :: "string \<Rightarrow> string" where
  "after_last_blank line = rev (takeWhile (\<lambda>c. c \<noteq> CHR '' '' \<and> c \<noteq> CHR 0x09) (rev line))"

definition line0 :: "string \<Rightarrow> char" where
  "line0 line = (case line of [] \<Rightarrow> CHR 0x00 | c # cs \<Rightarrow> c)"

text \<open>
  The loop of \<open>readAscii\<close>.  \<open>atof\<close>, followed by the conversion of its result to
  \<open>float\<close>, is a function of the C library and a parameter here, as is the answer
  \<open>alloc n\<close> of the allocator to the request made by \<open>resize (n)\<close>.  The result is the
  exception thrown by \<open>resize\<close> or the value returned, with the buffer afterwards.
\<close>

function readAscii_loop ::
  "(string \<Rightarrow> float) \<Rightarrow> (nat \<Rightarrow> alloc_outcome) \<Rightarrow> ifstream \<Rightarrow> string \<Rightarrow> nat \<Rightarrow> impl
   \<Rightarrow> (exn + bool) \<times> impl" where
  "readAscii_loop atof alloc file line index s =
     (case getline file line of (file', line') \<Rightarrow>
        if failbit file' then (Inr (good (close file')), s)
        else if line0 line' = CHR ''#'' \<or> line0 line' = newline
        then readAscii_loop atof alloc file' line' index s
        else if find_str ''Number of events: '' line'
        then
          (let n = size_t_of_int (atoi (c_str (after_last_blank line'))) in
           case resize (alloc n) n s of
             (Some e, s') \<Rightarrow> (Inl e, s')
           | (None, s') \<Rightarrow> readAscii_loop atof alloc file' line' index s')
        else if numEvents s = 0 then (Inr False, s)
        else
          (let event = map (\<lambda>token. atof (c_str token)) (tokens line') in
           if length event \<noteq> 5 then (Inr False, s)
           else readAscii_loop atof alloc file' line' (index + 1)
                  (update index (Vector3f (event ! 0) (event ! 1) (event ! 2))
                          (event ! 3) (event ! 4) s)))"
  by pat_completeness auto
termination
proof -
  have m: "length (buf f') + (if good f' then 1 else 0)
             < length (buf f) + (if good f then 1 else 0)"
    if a: "(f', line') = getline f line" and nf: "\<not> failbit f'"
    for f f' :: ifstream and line line' :: string
  proof (cases "good f")
    case False
    then show ?thesis using a nf by (simp add: getline_def)
  next
    case g: True
    let ?l = "takeWhile (\<lambda>c. c \<noteq> newline) (buf f)"
    let ?r = "dropWhile (\<lambda>c. c \<noteq> newline) (buf f)"
    show ?thesis
    proof (cases ?r)
      case Nil
      have f': "f' = f\<lparr>buf := [], eofbit := True, failbit := (?l = [])\<rparr>"
        using a g unfolding getline_def Let_def Nil by simp
      with nf have "?l \<noteq> []" by simp
      then have "buf f \<noteq> []" by auto
      then show ?thesis using f' g by (simp add: good_def)
    next
      case (Cons c rest)
      have f': "f' = f\<lparr>buf := rest\<rparr>"
        using a g unfolding getline_def Let_def Cons by simp
      have "length ?r \<le> length (buf f)" by (rule length_dropWhile_le)
      then have "length rest < length (buf f)" using Cons by simp
      then show ?thesis using f' g by (simp add: good_def)
    qed
  qed
  show ?thesis
    apply (relation "measure (\<lambda>(atof, alloc, file, line, index, s).
                       length (buf file) + (if good file then 1 else 0))")
       apply simp
      apply (simp only: in_measure prod.case, erule (1) m)+
    done
qed

declare readAscii_loop.simps [simp del]

text \<open>\<open>readAscii\<close>; the file is \<open>None\<close> when it cannot be opened.\<close>

definition readAscii ::
  "(string \<Rightarrow> float) \<Rightarrow> (nat \<Rightarrow> alloc_outcome) \<Rightarrow> string option \<Rightarrow> impl
   \<Rightarrow> (exn + bool) \<times> impl" where
  "readAscii atof alloc file s =
     (case file of
        None \<Rightarrow> (Inr False, s)
      | Some content \<Rightarrow> readAscii_loop atof alloc (ifstream_open content) [] 0 s)"

definition read ::
  "(string \<Rightarrow> float) \<Rightarrow> (nat \<Rightarrow> alloc_outcome) \<Rightarrow> string \<Rightarrow> impl \<Rightarrow> (exn + bool) \<times> impl" where
  "read atof alloc file s =
     (case readBinary alloc file s of
        (Inl e, s') \<Rightarrow> (Inl e, s')
      | (Inr True, s') \<Rightarrow> (Inr True, s')
      | (Inr False, s') \<Rightarrow> readAscii atof alloc (Some file) s')"


text \<open>
  The ways in which a file fails the checks of \<open>readBinary\<close>: it is shorter than one
  word, has the wrong magic number, has no or the wrong version word, or is longer than
  the events it holds.  The first line of a file as \<open>std::getline\<close> delivers it, and
  what makes the text reader reject a line without having changed the buffer: it is no
  comment and no \<open>Number of events\<close> line, and the buffer is empty or the line does
  not have five tokens.
\<close>

definition not_binary :: "string \<Rightarrow> bool" where
  "not_binary fl = (length fl div 4 = 0 \<or> \<not> isBinary fl \<or> length fl div 4 \<le> 1 \<or>
                    word_at fl 1 \<noteq> version \<or>
                    getBinarySize ((length fl div 4 - 2) div 5) < length fl)"

definition first_line :: "string \<Rightarrow> string" where
  "first_line fl = takeWhile (\<lambda>c. c \<noteq> newline) fl"

definition rejected :: "impl \<Rightarrow> string \<Rightarrow> bool" where
  "rejected s l = (line0 l \<noteq> CHR ''#'' \<and> \<not> find_str ''Number of events: '' l \<and>
                   (numEvents s = 0 \<or> length (tokens l) \<noteq> 5))"


text \<open>
  What the body of the loop of \<open>readAscii\<close> does with one line that
  \<open>std::getline\<close> has delivered: it ends the reader with a result (\<open>Inl\<close>), or the
  loop goes on with an event index and a buffer (\<open>Inr\<close>).  \<open>lines_effect\<close> is the
  same for a list of lines in order.  Lemma \<open>readAscii_loop_lines\<close> below shows that the
  loop does just this with the complete lines a file starts with.
\<close>

definition line_effect ::
  "(string \<Rightarrow> float) \<Rightarrow> (nat \<Rightarrow> alloc_outcome) \<Rightarrow> string \<Rightarrow> nat \<Rightarrow> impl
   \<Rightarrow> ((exn + bool) \<times> impl) + (nat \<times> impl)" where
  "line_effect atof alloc line index s =
     (if line0 line = CHR ''#'' \<or> line0 line = newline then Inr (index, s)
      else if find_str ''Number of events: '' line
      then
        (let n = size_t_of_int (atoi (c_str (after_last_blank line))) in
         case resize (alloc n) n s of
           (Some e, s') \<Rightarrow> Inl (Inl e, s')
         | (None, s') \<Rightarrow> Inr (index, s'))
      else if numEvents s = 0 then Inl (Inr False, s)
      else
        (let event = map (\<lambda>token. atof (c_str token)) (tokens line) in
         if length event \<noteq> 5 then Inl (Inr False, s)
         else Inr (index + 1,
                   update index (Vector3f (event ! 0) (event ! 1) (event ! 2))
                          (event ! 3) (event ! 4) s)))"

fun lines_effect ::
  "(string \<Rightarrow> float) \<Rightarrow> (nat \<Rightarrow> alloc_outcome) \<Rightarrow> string list \<Rightarrow> nat \<Rightarrow> impl
   \<Rightarrow> ((exn + bool) \<times> impl) + (nat \<times> impl)" where
  "lines_effect atof alloc [] index s = Inr (index, s)"
| "lines_effect atof alloc (line # lines) index s =
     (case line_effect atof alloc line index s of
        Inl r \<Rightarrow> Inl r
      | Inr (index', s') \<Rightarrow> lines_effect atof alloc lines index' s')"


section \<open>Bounding boxes and sequences of updates\<close>

text \<open>\<open>a <= b\<close> on floats, containment of a point in a box and of a box in a box.\<close>

definition fle :: "float \<Rightarrow> float \<Rightarrow> bool" where
  "fle a b = (\<not> isnan a \<and> \<not> isnan b \<and> fkey a \<le> fkey b)"

definition encloses :: "AABBf \<Rightarrow> Vector3f \<Rightarrow> bool" where
  "encloses box p =
     (fle (vx (getMin box)) (vx p) \<and> fle (vx p) (vx (getMax box)) \<and>
      fle (vy (getMin box)) (vy p) \<and> fle (vy p) (vy (getMax box)) \<and>
      fle (vz (getMin box)) (vz p) \<and> fle (vz p) (vz (getMax box)))"

definition box_within :: "AABBf \<Rightarrow> AABBf \<Rightarrow> bool" where
  "box_within a b =
     (fle (vx (getMin b)) (vx (getMin a)) \<and> fle (vx (getMax a)) (vx (getMax b)) \<and>
      fle (vy (getMin b)) (vy (getMin a)) \<and> fle (vy (getMax a)) (vy (getMax b)) \<and>
      fle (vz (getMin b)) (vz (getMin a)) \<and> fle (vz (getMax a)) (vz (getMax b)))"

definition nan_free :: "Vector3f \<Rightarrow> bool" where
  "nan_free p = (\<not> isnan (vx p) \<and> \<not> isnan (vy p) \<and> \<not> isnan (vz p))"

definition nan_free_box :: "AABBf \<Rightarrow> bool" where
  "nan_free_box b = (nan_free (getMin b) \<and> nan_free (getMax b))"

text \<open>A sequence of calls \<open>update (i, pos, rad, val)\<close>, in order.\<close>

type_synonym call = "nat \<times> Vector3f \<times> float \<times> float"

fun updates :: "call list \<Rightarrow> impl \<Rightarrow> impl" where
  "updates [] s = s"
| "updates ((i, pos, rad, val) # cs) s = updates cs (update i pos rad val s)"

text \<open>The positions of the calls whose index is in bounds for a buffer of \<open>n\<close> events.\<close>

fun merged :: "nat \<Rightarrow> call list \<Rightarrow> Vector3f list" where
  "merged n [] = []"
| "merged n ((i, pos, rad, val) # cs) = (if i < n then pos # merged n cs else merged n cs)"


section \<open>Example stores\<close>

text \<open>
  A store constructed with unit configuration values and a degenerate box at the origin,
  and the same store after \<open>resize (2)\<close> and two calls of \<open>update\<close>: event 0 at
  \<open>(1, 2, 3)\<close> with radius 2 and value 5, event 1 at \<open>(4, 5, 6)\<close> with radius 2 and
  value 7.
\<close>

definition box0 :: AABBf where
  "box0 = AABBf (Vector3f (frnd 0) (frnd 0) (frnd 0)) (Vector3f (frnd 0) (frnd 0) (frnd 0))"

definition store0 :: impl where
  "store0 = Impl (frnd 1) (frnd 1) (frnd 1) box0"

definition two_events :: impl where
  "two_events =
     update 1 (Vector3f (frnd 4) (frnd 5) (frnd 6)) (frnd 2) (frnd 7)
       (update 0 (Vector3f (frnd 1) (frnd 2) (frnd 3)) (frnd 2) (frnd 5)
          (snd (resize Memalign_ok 2 store0)))"



text \<open>
  A one-event store whose stored radius \<open>2^-24\<close>, the reciprocal of the radius
  16777216 passed to \<open>update\<close>, is below \<open>\<epsilon>\<close>.
\<close>

definition tiny_radius :: impl where
  "tiny_radius =
     update 0 (Vector3f (frnd 1) (frnd 2) (frnd 3)) (frnd 16777216) (frnd 5)
       (snd (resize Memalign_ok 1 store0))"

text \<open>
  A file with the binary magic number, the version word 2 and then a line of text; and
  two text files that differ by an empty line between the two data lines.
\<close>

definition bad_version_file :: string where
  "bad_version_file = bytes_of magic @ bytes_of 2 @ ''Number of events: 3\<newline>''"

definition text_two_events :: string where
  "text_two_events = ''Number of events: 2\<newline>1 2 3 2 5\<newline>4 5 6 2 7\<newline>''"

definition text_blank_line :: string where
  "text_blank_line = ''Number of events: 2\<newline>1 2 3 2 5\<newline>\<newline>4 5 6 2 7\<newline>''"

definition text_short_line :: string where
  "text_short_line = ''Number of events: 2\<newline>1 2 3 2 5\<newline>4 5 6\<newline>''"

text \<open>The file that \<open>write\<close> produces for the store \<open>tiny_radius\<close>.\<close>

definition tiny_radius_file :: string where
  "tiny_radius_file =
     concat (map bytes_of [magic, version, frnd 1, frnd 2, frnd 3, frnd (1 / 16777216), frnd 5])"

text \<open>A text file with a comment line and then a line of three tokens.\<close>

definition text_comment_bad :: string where
  "text_comment_bad = ''# header\<newline>1 2 3\<newline>''"

text \<open>
  An instance of \<open>atof\<close> for the examples: on a token of decimal digits it is the float
  nearest to the number, as \<open>atof\<close> is.  The allocator of the examples always succeeds
  with \<open>posix_memalign\<close>.
\<close>

definition atof_digits :: "string \<Rightarrow> float" where
  "atof_digits token = frnd (of_int (atoi token))"

definition memalign :: "nat \<Rightarrow> alloc_outcome" where
  "memalign n = Memalign_ok"

text \<open>
  The empty store resized to two events, and two sequences of calls of \<open>update\<close>; the
  first call of the second sequence has an index out of range.
\<close>

definition empty_two :: impl where
  "empty_two = snd (resize Memalign_ok 2 store0)"

definition calls_a :: "call list" where
  "calls_a = [(0, Vector3f (frnd 1) (frnd 2) (frnd 3), frnd 2, frnd 5)]"

definition calls_b :: "call list" where
  "calls_b = [(5, Vector3f (frnd 10) (frnd 10) (frnd 10), frnd 2, frnd 5),
              (1, Vector3f (frnd 4) (frnd 5) (frnd 6), frnd 2, frnd 7)]"

section \<open>Evaluating the examples\<close>

text \<open>Values of the float operations that the examples use, computed once.\<close>

lemma frnd_vals:
  "frnd 0 = 0 \<and> frnd 1 = 0x3F800000 \<and> frnd 2 = 0x40000000 \<and> frnd 3 = 0x40400000 \<and>
   frnd 4 = 0x40800000 \<and> frnd 5 = 0x40A00000 \<and> frnd 6 = 0x40C00000 \<and> frnd 7 = 0x40E00000 \<and>
   frnd (1/2) = 0x3F000000 \<and> frnd 10 = 0x41200000 \<and> frnd 11 = 0x41300000"
  by code_simp

lemma float_vals:
  "fdiv one_f 0x40000000 = 0x3F000000 \<and>
   flt epsilon (fabs 0x40000000) \<and> \<not> flt epsilon (fabs 0) \<and>
   fneg one_f = 0xBF800000"
  by code_simp

lemma float_vals2:
  "frnd 16777216 = 0x4B800000 \<and> frnd (1 / 16777216) = 0x33800000 \<and>
   fdiv one_f 0x4B800000 = 0x33800000 \<and> flt epsilon (fabs 0x4B800000) \<and>
   \<not> flt epsilon (fabs 0x33800000) \<and> flt epsilon (fabs 0x3F800000)"
  by code_simp

lemma fminmax_vals:
  "fmin 0 0x3F800000 = 0 \<and> fmin 0 0x40000000 = 0 \<and> fmin 0 0x40400000 = 0 \<and>
   fmin 0 0x40800000 = 0 \<and> fmin 0 0x40A00000 = 0 \<and> fmin 0 0x40C00000 = 0 \<and>
   fmax 0 0x3F800000 = 0x3F800000 \<and> fmax 0 0x40000000 = 0x40000000 \<and>
   fmax 0 0x40400000 = 0x40400000 \<and> fmax 0x3F800000 0x40800000 = 0x40800000 \<and>
   fmax 0x40000000 0x40A00000 = 0x40A00000 \<and> fmax 0x40400000 0x40C00000 = 0x40C00000"
  by code_simp

lemma nan_vals:
  "\<not> isnan 0 \<and> \<not> isnan 0x3F800000 \<and> \<not> isnan 0x40000000 \<and> \<not> isnan 0x40400000 \<and>
   \<not> isnan 0x40800000 \<and> \<not> isnan 0x40A00000 \<and> \<not> isnan 0x40C00000 \<and>
   \<not> fle 0x41200000 0x40800000"
  by code_simp

lemma frame_range_vals:
  "\<not> flt (fsub 0x41200000 0x40400000) 0 \<and>
   flt (fsub 0x41200000 0x41300000) 0 \<and>
   Vector2ui (ffloor (fdiv 0 0x40000000))
             (fadd (ffloor (fdiv (fsub 0x41200000 0x40400000) 0x40000000)) one_f)
     = Some (0, 4) \<and>
   Vector2ui (ffloor (fdiv 0 0x40000000)) (fceil (fdiv 0x41200000 0x40000000)) = Some (0, 5)"
  by code_simp

lemma frnd_distinct: "frnd 4 \<noteq> frnd 2 \<and> frnd 3 \<noteq> frnd 5"
  by (simp add: frnd_vals)

text \<open>
  The float operations on some values whose IEEE-754 results are known: roundings to
  nearest with ties to even, a subnormal quotient, division by zero, the signs of zero.
\<close>

lemma float_model_checks:
  "frnd (1 / 3) = 0x3EAAAAAB \<and> frnd (1 / 10) = 0x3DCCCCCD \<and> frnd (- 1 / 10) = 0xBDCCCCCD \<and>
   frnd 16777217 = 0x4B800000 \<and> frnd 16777219 = 0x4B800002 \<and>
   frnd (1 / 2 ^ 149) = 1 \<and> frnd (1 / 2 ^ 150) = 0 \<and> frnd (3 / 2 ^ 150) = 2 \<and>
   fdiv one_f (frnd 3) = 0x3EAAAAAB \<and> fdiv one_f 0x7F7FFFFF = 0x00200000 \<and>
   fdiv one_f 0 = 0x7F800000 \<and> fdiv one_f 0x80000000 = 0xFF800000 \<and>
   fadd (frnd (1 / 10)) (frnd (2 / 10)) = 0x3E99999A \<and>
   fsub (frnd (1 / 10)) (frnd 3) = 0xC039999A \<and>
   ffloor (frnd (- 1 / 2)) = frnd (- 1) \<and> fceil (frnd (- 1 / 2)) = 0x80000000 \<and>
   float_to_uint (frnd (7 / 2)) = Some 3 \<and> float_to_uint (frnd (- 1)) = None"
  by code_simp

text \<open>Definitions unfolded when a buffer operation or a reader is run on an example.\<close>

lemmas offs = POSX_def POSY_def POSZ_def RADIUS_def VALUE_def NUM_OFFSETS_def

lemmas buffer_defs = update_def resize_def Impl_def poke_def merge_def box0_def store0_def Let_def

lemmas text_defs = readAscii_def readAscii_loop.simps getline_def ifstream_open_def good_def
  close_def newline_def line0_def c_str_def after_last_blank_def atoi_def isdigit_def isspace_def
  size_t_of_int_def tokens.simps atof_digits_def memalign_def Let_def

lemmas binary_defs = readBinary_def readBinary_loop.simps isBinary_def word_at_def byte_def
  getBinarySize_def magic_def version_def memalign_def

lemma bytes_vals:
  "bytes_of magic = [CHR 0xBF, CHR 0xFE, CHR 0x00, CHR 0x00] \<and>
   bytes_of version = [CHR 0x01, CHR 0x00, CHR 0x00, CHR 0x00] \<and>
   bytes_of 2 = [CHR 0x02, CHR 0x00, CHR 0x00, CHR 0x00] \<and>
   bytes_of 0x3F800000 = [CHR 0x00, CHR 0x00, CHR 0x80, CHR 0x3F] \<and>
   bytes_of 0x40000000 = [CHR 0x00, CHR 0x00, CHR 0x00, CHR 0x40] \<and>
   bytes_of 0x40400000 = [CHR 0x00, CHR 0x00, CHR 0x40, CHR 0x40] \<and>
   bytes_of 0x33800000 = [CHR 0x00, CHR 0x00, CHR 0x80, CHR 0x33] \<and>
   bytes_of 0x40A00000 = [CHR 0x00, CHR 0x00, CHR 0xA0, CHR 0x40]"
  by (simp add: bytes_of_def magic_def version_def drop_bit_eq_div char_of_eq_iff take_bit_eq_mod)

lemma store0_state:
  "store0 = \<lparr> dt = 0x3F800000, duration = 0x3F800000, currentTime = 0xBF800000,
       cutOffDistance = 0x3F800000, alignBoundary = 32, numEvents = 0, allocSize = 0,
       events = [], boundingBox = AABBf (Vector3f 0 0 0) (Vector3f 0 0 0), rtree = [] \<rparr>"
  by (simp add: buffer_defs frnd_vals float_vals)

lemma two_events_state:
  "two_events =
     \<lparr> dt = 0x3F800000, duration = 0x3F800000, currentTime = 0xBF800000,
       cutOffDistance = 0x3F800000, alignBoundary = 32, numEvents = 2, allocSize = 2,
       events = [Some 0x3F800000, Some 0x40800000, Some 0x40000000, Some 0x40A00000,
                 Some 0x40400000, Some 0x40C00000, Some 0x3F000000, Some 0x3F000000,
                 Some 0x40A00000, Some 0x40E00000],
       boundingBox = AABBf (Vector3f 0 0 0) (Vector3f 0x40800000 0x40A00000 0x40C00000),
       rtree = [] \<rparr>"
  apply (simp add: two_events_def buffer_defs offs frnd_vals float_vals fminmax_vals)
  apply (simp add: eval_nat_numeral)
  done

lemma tiny_radius_state:
  "tiny_radius =
     \<lparr> dt = 0x3F800000, duration = 0x3F800000, currentTime = 0xBF800000,
       cutOffDistance = 0x3F800000, alignBoundary = 32, numEvents = 1, allocSize = 1,
       events = [Some 0x3F800000, Some 0x40000000, Some 0x40400000, Some 0x33800000,
                 Some 0x40A00000],
       boundingBox = AABBf (Vector3f 0 0 0) (Vector3f 0x3F800000 0x40000000 0x40400000),
       rtree = [] \<rparr>"
  apply (simp add: tiny_radius_def buffer_defs offs frnd_vals float_vals float_vals2 fminmax_vals)
  apply (simp add: eval_nat_numeral)
  done

lemma empty_two_facts:
  "numEvents empty_two = 2 \<and> boundingBox empty_two = AABBf (Vector3f 0 0 0) (Vector3f 0 0 0)"
  by (simp add: empty_two_def buffer_defs frnd_vals)

lemma bad_version_bytes:
  "bad_version_file =
     [CHR 0xBF, CHR 0xFE, CHR 0x00, CHR 0x00, CHR 0x02, CHR 0x00, CHR 0x00, CHR 0x00]
     @ ''Number of events: 3\<newline>''"
  by (simp add: bad_version_file_def bytes_vals)

lemma tiny_radius_written: "write_binary tiny_radius = Some tiny_radius_file"
  by (simp add: write_binary_def tiny_radius_state tiny_radius_file_def event_cells_def peek_def
        getPositionsX_def getPositionsY_def getPositionsZ_def getRadii_def getValues_def offs
        frnd_vals float_vals2)

lemma tiny_radius_read:
  "read atof_digits memalign tiny_radius_file store0 =
     (Inr True,
      \<lparr> dt = 0x3F800000, duration = 0x3F800000, currentTime = 0xBF800000,
        cutOffDistance = 0x3F800000, alignBoundary = 32, numEvents = 1, allocSize = 1,
        events = [Some 0x3F800000, Some 0x40000000, Some 0x40400000, None, Some 0x40A00000],
        boundingBox = AABBf (Vector3f 0 0 0) (Vector3f 0x3F800000 0x40000000 0x40400000),
        rtree = [] \<rparr>)"
  apply (simp add: read_def tiny_radius_file_def frnd_vals float_vals2 bytes_vals)
  apply (simp add: binary_defs buffer_defs offs frnd_vals float_vals float_vals2 fminmax_vals)
  apply (simp add: eval_nat_numeral)
  done

lemma bad_version_read:
  "read atof_digits memalign bad_version_file store0 =
     (Inr False, store0\<lparr>numEvents := 3, allocSize := 3, events := replicate 15 None\<rparr>)"
  apply (simp add: read_def bad_version_bytes store0_state)
  apply (simp add: binary_defs text_defs resize_def offs)
  done

lemma short_line_read:
  "read atof_digits memalign text_short_line store0 =
     (Inr False, update 0 (Vector3f (frnd 1) (frnd 2) (frnd 3)) (frnd 2) (frnd 5)
                   (snd (resize Memalign_ok 2 store0)))"
  apply (simp add: read_def text_short_line_def)
  apply (simp add: binary_defs text_defs buffer_defs offs frnd_vals float_vals fminmax_vals)
  done

lemma text_comment_bad_split:
  "text_comment_bad = concat (map (\<lambda>l. l @ [newline]) [''# header'']) @ ''1 2 3\<newline>'' \<and>
   text_short_line =
     concat (map (\<lambda>l. l @ [newline]) [''Number of events: 2'', ''1 2 3 2 5'']) @ ''4 5 6\<newline>''"
  by (simp add: text_comment_bad_def text_short_line_def newline_def)

lemma example_lines_effect:
  "lines_effect atof_digits memalign [''# header''] 0 two_events = Inr (0, two_events) \<and>
   lines_effect atof_digits memalign [''Number of events: 2'', ''1 2 3 2 5''] 0 store0 =
     Inr (1, update 0 (Vector3f (frnd 1) (frnd 2) (frnd 3)) (frnd 2) (frnd 5)
               (snd (resize Memalign_ok 2 store0)))"
  by (simp add: line_effect_def text_defs buffer_defs offs frnd_vals float_vals fminmax_vals)

section \<open>The storage block\<close>

text \<open>
  The block of a store holds five cells for each of \<open>allocSize\<close> events, and every
  operation that returns keeps it so, as long as the byte count of the allocation fits
  \<open>size_t\<close>.  In such a store all stores of an in-bounds \<open>update\<close> are inside the
  block; the call writes the cells of its own event and no cell of another one.
\<close>

lemma block_ok_Impl: "block_ok (Impl a b c box)"
  by (simp add: block_ok_def Impl_def)

lemma block_ok_resize:
  assumes "block_ok s" and "n * 20 < 2 ^ 64" and "resize a n s = (None, s')"
  shows "block_ok s' \<and> numEvents s' = n"
proof (cases "n < allocSize s")
  case True
  with assms show ?thesis by (auto simp add: resize_def block_ok_def)
next
  case False
  from assms(2) have m: "n * 5 < 18446744073709551616"
    "20 * n mod 18446744073709551616 div 4 = n * 5"
    by simp_all
  from False assms(3) show ?thesis
    by (cases a) (auto simp add: resize_def block_ok_def NUM_OFFSETS_def Let_def m split: if_splits)
qed

lemma resize_succeeds:
  "a \<noteq> Alloc_failed \<Longrightarrow> n * 20 < 2 ^ 64 \<Longrightarrow> fst (resize a n s) = None"
  by (cases a) (simp_all add: resize_def Let_def NUM_OFFSETS_def)

lemma stores_in_block:
  "block_ok s \<Longrightarrow> i < numEvents s \<Longrightarrow> i + numEvents s * VALUE < length (events s)"
  by (simp add: block_ok_def VALUE_def NUM_OFFSETS_def)

lemma update_frame:
  "numEvents (update i pos rad val s) = numEvents s \<and>
   allocSize (update i pos rad val s) = allocSize s \<and>
   length (events (update i pos rad val s)) = length (events s)"
  by (simp add: update_def poke_def Let_def)

lemma block_ok_update: "block_ok s \<Longrightarrow> block_ok (update i pos rad val s)"
  by (simp add: block_ok_def update_frame)

lemma peek_column:
  "k + i < length es \<Longrightarrow> peek (drop k es) i = es ! (k + i)"
  by (simp add: peek_def less_diff_conv add.commute)

lemma update_in_bounds:
  assumes ok: "block_ok s" and i: "i < numEvents s"
  shows "boundingBox (update i pos rad val s) = merge (boundingBox s) pos \<and>
         peek (getPositionsX (update i pos rad val s)) i = Some (vx pos) \<and>
         peek (getPositionsY (update i pos rad val s)) i = Some (vy pos) \<and>
         peek (getPositionsZ (update i pos rad val s)) i = Some (vz pos) \<and>
         peek (getRadii (update i pos rad val s)) i =
           (if flt epsilon (fabs rad) then Some (fdiv one_f rad) else peek (getRadii s) i) \<and>
         peek (getValues (update i pos rad val s)) i = Some val \<and>
         rtree (update i pos rad val s) = []"
proof -
  let ?n = "numEvents s"
  from ok i have len: "i + ?n * 4 < length (events s)"
    by (simp add: block_ok_def NUM_OFFSETS_def)
  from i have pos: "0 < ?n" by simp
  show ?thesis
    using len pos i
    by (simp add: update_def poke_def Let_def offs getPositionsX_def getPositionsY_def
          getPositionsZ_def getRadii_def getValues_def peek_def less_diff_conv add.commute)
qed

lemma update_other_event:
  assumes ok: "block_ok s" and i: "i < numEvents s" and j: "j < numEvents s" and ne: "i \<noteq> j"
  shows "peek (getPositionsX (update i pos rad val s)) j = peek (getPositionsX s) j \<and>
         peek (getPositionsY (update i pos rad val s)) j = peek (getPositionsY s) j \<and>
         peek (getPositionsZ (update i pos rad val s)) j = peek (getPositionsZ s) j \<and>
         peek (getRadii (update i pos rad val s)) j = peek (getRadii s) j \<and>
         peek (getValues (update i pos rad val s)) j = peek (getValues s) j"
proof -
  let ?n = "numEvents s"
  from ok j have len: "j + ?n * 4 < length (events s)"
    by (simp add: block_ok_def NUM_OFFSETS_def)
  have d: "i + ?n * a \<noteq> ?n * b + j" if "a \<le> 4" "b \<le> 4" for a b
  proof
    assume e: "i + ?n * a = ?n * b + j"
    then have "(i + ?n * a) mod ?n = (?n * b + j) mod ?n" by simp
    with i j have "i = j" by simp
    with ne show False by simp
  qed
  have d0: "i \<noteq> ?n * b + j" if "b \<le> 4" for b using d [of 0 b] that by simp
  have d1: "i + ?n \<noteq> ?n * b + j" if "b \<le> 4" for b using d [of 1 b] that by simp
  have e0: "i + ?n * a \<noteq> j" if "a \<le> 4" for a using d [of a 0] that by simp
  have e1: "i + ?n * a \<noteq> ?n + j" if "a \<le> 4" for a using d [of a 1] that by simp
  show ?thesis
    using len ne d d0 d1 e0 e1 d [of 1 0] d [of 0 1] d [of 1 1] d [of 0 0]
    by (simp add: update_def poke_def Let_def offs getPositionsX_def getPositionsY_def
          getPositionsZ_def getRadii_def getValues_def peek_def less_diff_conv nth_list_update)
qed

lemma event_cells_update_same:
  "block_ok s \<Longrightarrow> i < numEvents s \<Longrightarrow>
   event_cells (update i pos rad val s) i =
     [Some (vx pos), Some (vy pos), Some (vz pos),
      if flt epsilon (fabs rad) then Some (fdiv one_f rad) else peek (getRadii s) i,
      Some val]"
  by (simp add: event_cells_def update_in_bounds)

lemma event_cells_update_other:
  "block_ok s \<Longrightarrow> i < numEvents s \<Longrightarrow> j < numEvents s \<Longrightarrow> i \<noteq> j \<Longrightarrow>
   event_cells (update i pos rad val s) j = event_cells s j"
  by (simp add: event_cells_def update_other_event)

section \<open>Floats in order\<close>

lemma fmin_fmax_not_nan:
  "\<not> isnan a \<Longrightarrow> \<not> isnan b \<Longrightarrow> \<not> isnan (fmin a b) \<and> \<not> isnan (fmax a b)"
  by (simp add: fmin_def fmax_def)

lemma fle_refl: "\<not> isnan a \<Longrightarrow> fle a a"
  by (simp add: fle_def)

lemma fle_trans: "fle a b \<Longrightarrow> fle b c \<Longrightarrow> fle a c"
  by (auto simp add: fle_def)

lemma fmin_lower: "\<not> isnan a \<Longrightarrow> \<not> isnan b \<Longrightarrow> fle (fmin a b) a \<and> fle (fmin a b) b"
  by (auto simp add: fle_def fmin_def flt_def)

lemma fmax_upper: "\<not> isnan a \<Longrightarrow> \<not> isnan b \<Longrightarrow> fle a (fmax a b) \<and> fle b (fmax a b)"
  by (auto simp add: fle_def fmax_def flt_def)

lemma fmin_greatest: "fle c a \<Longrightarrow> fle c b \<Longrightarrow> fle c (fmin a b)"
  by (auto simp add: fle_def fmin_def flt_def)

lemma fmax_least: "fle a c \<Longrightarrow> fle b c \<Longrightarrow> fle (fmax a b) c"
  by (auto simp add: fle_def fmax_def flt_def)

section \<open>Merging positions into the bounding box\<close>

lemma merge_nan_free: "nan_free_box b \<Longrightarrow> nan_free p \<Longrightarrow> nan_free_box (merge b p)"
  by (simp add: nan_free_box_def nan_free_def merge_def fmin_fmax_not_nan)

lemma merge_grows: "nan_free_box b \<Longrightarrow> nan_free p \<Longrightarrow> box_within b (merge b p)"
  by (simp add: nan_free_box_def nan_free_def merge_def box_within_def fmin_lower fmax_upper)

lemma merge_encloses: "nan_free_box b \<Longrightarrow> nan_free p \<Longrightarrow> encloses (merge b p) p"
  by (simp add: nan_free_box_def nan_free_def merge_def encloses_def fmin_lower fmax_upper)

lemma merge_least:
  "box_within b C \<Longrightarrow> encloses C p \<Longrightarrow> box_within (merge b p) C"
  by (simp add: merge_def box_within_def encloses_def fmin_greatest fmax_least)

lemma box_within_refl: "nan_free_box b \<Longrightarrow> box_within b b"
  by (simp add: nan_free_box_def nan_free_def box_within_def fle_refl)

lemma box_within_trans: "box_within a b \<Longrightarrow> box_within b c \<Longrightarrow> box_within a c"
  unfolding box_within_def by (blast intro: fle_trans)

lemma encloses_mono: "encloses a p \<Longrightarrow> box_within a b \<Longrightarrow> encloses b p"
  unfolding box_within_def encloses_def by (blast intro: fle_trans)

lemma numEvents_update [simp]: "numEvents (update i pos rad val s) = numEvents s"
  by (simp add: update_def poke_def Let_def)

lemma boundingBox_update:
  "boundingBox (update i pos rad val s) =
     (if i < numEvents s then merge (boundingBox s) pos else boundingBox s)"
  by (simp add: update_def poke_def Let_def)

lemma numEvents_updates [simp]: "numEvents (updates cs s) = numEvents s"
  by (induction cs s rule: updates.induct) simp_all

lemma boundingBox_updates:
  "boundingBox (updates cs s) = foldl merge (boundingBox s) (merged (numEvents s) cs)"
  by (induction cs s rule: updates.induct) (simp_all add: boundingBox_update)

lemma updates_append: "updates (cs @ ds) s = updates ds (updates cs s)"
  by (induction cs s rule: updates.induct) simp_all

lemma merged_append: "merged n (cs @ ds) = merged n cs @ merged n ds"
  by (induction n cs rule: merged.induct) simp_all

lemma foldl_merge_props:
  "nan_free_box b \<Longrightarrow> \<forall>p\<in>set ps. nan_free p \<Longrightarrow>
   nan_free_box (foldl merge b ps) \<and> box_within b (foldl merge b ps) \<and>
   (\<forall>p\<in>set ps. encloses (foldl merge b ps) p)"
proof (induction ps arbitrary: b)
  case Nil
  then show ?case by (simp add: box_within_refl)
next
  case (Cons q ps)
  let ?b = "merge b q"
  from Cons.prems have nb: "nan_free_box ?b" and g: "box_within b ?b" and e: "encloses ?b q"
    by (simp_all add: merge_nan_free merge_grows merge_encloses)
  from Cons.IH [OF nb] Cons.prems
  have ih: "nan_free_box (foldl merge ?b ps)" "box_within ?b (foldl merge ?b ps)"
    "\<forall>p\<in>set ps. encloses (foldl merge ?b ps) p" by simp_all
  show ?case
    using ih g e by (auto intro: box_within_trans encloses_mono)
qed

lemma foldl_merge_least:
  "box_within b C \<Longrightarrow> \<forall>p\<in>set ps. encloses C p \<Longrightarrow> box_within (foldl merge b ps) C"
  by (induction ps arbitrary: b) (simp_all add: merge_least)

section \<open>The readers\<close>

text \<open>
  A failure reported by the binary reader leaves the buffer as it was.  The text reader
  never returns \<open>true\<close>: its loop ends only when \<open>std::getline\<close> has set \<open>failbit\<close>,
  and the value it then returns is \<open>file.good ()\<close>.
\<close>

lemma readBinary_False_keeps_buffer:
  "readBinary alloc file s = (Inr False, s') \<Longrightarrow> s' = s"
  by (auto simp add: readBinary_def Let_def split: if_splits prod.splits option.splits)

lemma readBinary_not_binary: "not_binary fl \<Longrightarrow> readBinary alloc fl s = (Inr False, s)"
  by (auto simp add: readBinary_def not_binary_def Let_def)

lemma read_after_False:
  "readBinary alloc fl s = (Inr False, s) \<Longrightarrow> read atof alloc fl s = readAscii atof alloc (Some fl) s"
  by (simp add: read_def)

lemma readAscii_loop_not_True:
  "fst (readAscii_loop atof alloc strm lin index s) \<noteq> Inr True"
proof (induction atof alloc strm lin index s rule: readAscii_loop.induct)
  case (1 atof alloc strm lin index s)
  obtain file' line' where g: "getline strm lin = (file', line')" by (cases "getline strm lin")
  show ?case
  proof (cases "failbit file'")
    case True
    then show ?thesis
      by (subst readAscii_loop.simps) (simp add: g good_def close_def)
  next
    case nf: False
    show ?thesis
    proof (cases "line0 line' = CHR ''#'' \<or> line0 line' = newline")
      case True
      with nf "1.IH"(1) [OF g [symmetric]] show ?thesis
        by (subst readAscii_loop.simps) (simp add: g)
    next
      case nc: False
      show ?thesis
      proof (cases "find_str ''Number of events: '' line'")
        case True
        let ?n = "size_t_of_int (atoi (c_str (after_last_blank line')))"
        obtain e s' where r: "resize (alloc ?n) ?n s = (e, s')" by (cases "resize (alloc ?n) ?n s")
        show ?thesis
        proof (cases e)
          case None
          with nf nc True r "1.IH"(2) [OF g [symmetric] nf nc True refl r [symmetric]]
          show ?thesis
            by (subst readAscii_loop.simps) (simp add: g Let_def)
        next
          case (Some x)
          with nf nc True r show ?thesis
            by (subst readAscii_loop.simps) (simp add: g Let_def)
        qed
      next
        case nh: False
        show ?thesis
        proof (cases "numEvents s = 0")
          case True
          with nf nc nh show ?thesis
            by (subst readAscii_loop.simps) (simp add: g)
        next
          case ne: False
          let ?ev = "map (\<lambda>token. atof (c_str token)) (tokens line')"
          show ?thesis
          proof (cases "length ?ev \<noteq> 5")
            case True
            with nf nc nh ne show ?thesis
              by (subst readAscii_loop.simps) (simp add: g Let_def)
          next
            case False
            with nf nc nh ne "1.IH"(3) [OF g [symmetric] nf nc nh ne refl False]
            show ?thesis
              by (subst readAscii_loop.simps) (simp add: g Let_def)
          qed
        qed
      qed
    qed
  qed
qed

lemma readAscii_not_True: "fst (readAscii atof alloc fl s) \<noteq> Inr True"
  by (cases fl) (simp_all add: readAscii_def readAscii_loop_not_True)

lemma read_True_iff:
  "fst (read atof alloc fl s) = Inr True \<longleftrightarrow> fst (readBinary alloc fl s) = Inr True"
proof (cases "readBinary alloc fl s")
  case (Pair r s')
  show ?thesis
  proof (cases r)
    case (Inl e)
    with Pair show ?thesis by (simp add: read_def)
  next
    case (Inr b)
    with Pair readAscii_not_True [of atof alloc "Some fl" s'] show ?thesis
      by (cases b) (simp_all add: read_def)
  qed
qed

lemma line0_first_line: "line0 (first_line fl) \<noteq> newline"
proof (cases "first_line fl")
  case Nil
  then show ?thesis by (simp add: line0_def newline_def)
next
  case (Cons c cs)
  then have "c \<in> set (takeWhile (\<lambda>c. c \<noteq> newline) fl)" by (simp add: first_line_def)
  then have "c \<noteq> newline" by (rule set_takeWhileD [THEN conjunct2])
  with Cons show ?thesis by (simp add: line0_def)
qed

lemma getline_open:
  assumes "fl \<noteq> []"
  shows "\<exists>f'. getline (ifstream_open fl) lin = (f', first_line fl) \<and> \<not> failbit f'"
proof (cases "dropWhile (\<lambda>c. c \<noteq> newline) fl")
  case Nil
  have "takeWhile (\<lambda>c. c \<noteq> newline) fl @ dropWhile (\<lambda>c. c \<noteq> newline) fl = fl"
    by (rule takeWhile_dropWhile_id)
  then have "takeWhile (\<lambda>c. c \<noteq> newline) fl = fl" unfolding Nil by simp
  with assms have ne: "takeWhile (\<lambda>c. c \<noteq> newline) fl \<noteq> []" by (cases fl) auto
  show ?thesis
    by (simp add: getline_def ifstream_open_def good_def Let_def first_line_def Nil ne)
next
  case (Cons c rest)
  show ?thesis
    by (simp add: getline_def ifstream_open_def good_def Let_def first_line_def Cons)
qed

lemma readAscii_rejected:
  assumes "fl = [] \<or> rejected s (first_line fl)"
  shows "readAscii atof alloc (Some fl) s = (Inr False, s)"
proof (cases "fl = []")
  case True
  have "readAscii_loop atof alloc (ifstream_open []) [] 0 s = (Inr False, s)"
    by (subst readAscii_loop.simps)
       (simp add: getline_def ifstream_open_def good_def close_def)
  with True show ?thesis by (simp add: readAscii_def)
next
  case False
  with assms have r: "rejected s (first_line fl)" by simp
  from False obtain f' where g: "getline (ifstream_open fl) [] = (f', first_line fl)"
    and nf: "\<not> failbit f'" using getline_open by blast
  have "readAscii_loop atof alloc (ifstream_open fl) [] 0 s = (Inr False, s)"
    using r nf line0_first_line [of fl]
    by (subst readAscii_loop.simps) (auto simp add: g rejected_def Let_def)
  then show ?thesis by (simp add: readAscii_def)
qed

text \<open>
  A line of the text file is consumed by one round of the loop.  A comment line
  inserted after any number of complete lines does not change the result of reading;
  an empty line stops the reader, whatever the buffer holds.
\<close>

lemma getline_line:
  assumes "newline \<notin> set l"
  shows "getline (ifstream_open (l @ newline # tl0)) lin = (ifstream_open tl0, l)"
proof -
  from assms have a: "takeWhile (\<lambda>c. c \<noteq> newline) l = l" "dropWhile (\<lambda>c. c \<noteq> newline) l = []"
    by (auto simp add: takeWhile_eq_all_conv)
  show ?thesis
    by (simp add: getline_def ifstream_open_def good_def Let_def takeWhile_tail dropWhile_append3 a)
qed

lemma getline_good_line: "good f \<Longrightarrow> getline f l1 = getline f l2"
  by (simp add: getline_def)

lemma readAscii_loop_line:
  "good f \<Longrightarrow> readAscii_loop atof alloc f l1 i s = readAscii_loop atof alloc f l2 i s"
  by (subst readAscii_loop.simps, subst (2) readAscii_loop.simps)
     (simp add: getline_good_line [of f l1 l2])

lemma readAscii_loop_step:
  "newline \<notin> set l \<Longrightarrow>
   readAscii_loop atof alloc (ifstream_open (l @ newline # tl0)) lin i s =
     (if line0 l = CHR ''#'' \<or> line0 l = newline
      then readAscii_loop atof alloc (ifstream_open tl0) l i s
      else if find_str ''Number of events: '' l
      then
        (let n = size_t_of_int (atoi (c_str (after_last_blank l))) in
         case resize (alloc n) n s of
           (Some e, s') \<Rightarrow> (Inl e, s')
         | (None, s') \<Rightarrow> readAscii_loop atof alloc (ifstream_open tl0) l i s')
      else if numEvents s = 0 then (Inr False, s)
      else
        (let event = map (\<lambda>token. atof (c_str token)) (tokens l) in
         if length event \<noteq> 5 then (Inr False, s)
         else readAscii_loop atof alloc (ifstream_open tl0) l (i + 1)
                (update i (Vector3f (event ! 0) (event ! 1) (event ! 2))
                        (event ! 3) (event ! 4) s)))"
  by (subst readAscii_loop.simps) (simp add: getline_line, simp add: ifstream_open_def)

lemma comment_line_insertion:
  assumes "\<forall>l\<in>set ls. newline \<notin> set l" and "newline \<notin> set c"
  shows "readAscii_loop atof alloc
           (ifstream_open (concat (map (\<lambda>l. l @ [newline]) ls) @ CHR ''#'' # c @ newline # rest))
           lin i s =
         readAscii_loop atof alloc
           (ifstream_open (concat (map (\<lambda>l. l @ [newline]) ls) @ rest)) lin i s"
  using assms(1)
proof (induction ls arbitrary: lin i s)
  case Nil
  have "newline \<notin> set (CHR ''#'' # c)" using assms(2) by (simp add: newline_def)
  then have "readAscii_loop atof alloc (ifstream_open ((CHR ''#'' # c) @ newline # rest)) lin i s
      = readAscii_loop atof alloc (ifstream_open rest) (CHR ''#'' # c) i s"
    by (subst readAscii_loop_step) (simp_all add: line0_def)
  also have "\<dots> = readAscii_loop atof alloc (ifstream_open rest) lin i s"
    by (rule readAscii_loop_line) (simp add: good_def ifstream_open_def)
  finally show ?case by simp
next
  case (Cons l ls)
  then have l: "newline \<notin> set l" and ls: "\<forall>l\<in>set ls. newline \<notin> set l" by simp_all
  note ih = Cons.IH [OF ls]
  show ?case
    by (simp add: readAscii_loop_step [OF l] ih Let_def split: prod.splits option.splits)
qed

lemma comment_line_skipped:
  assumes "\<forall>l\<in>set ls. newline \<notin> set l" and "newline \<notin> set c"
  shows "readAscii atof alloc
           (Some (concat (map (\<lambda>l. l @ [newline]) ls) @ CHR ''#'' # c @ newline # rest)) s =
         readAscii atof alloc (Some (concat (map (\<lambda>l. l @ [newline]) ls) @ rest)) s"
  unfolding readAscii_def using comment_line_insertion [OF assms] by simp

lemma empty_line_aborts:
  "readAscii_loop atof alloc (ifstream_open (newline # rest)) lin i s = (Inr False, s)"
proof -
  have "newline \<notin> set []" by simp
  from readAscii_loop_step [OF this, of atof alloc rest lin i s]
  show ?thesis by (simp add: line0_def newline_def tokens.simps)
qed

text \<open>
  On the complete lines a file starts with, the loop does what \<open>lines_effect\<close> says,
  and a rejected line next ends it with \<open>false\<close> and the buffer as it is then.
\<close>

lemma readAscii_loop_line_effect:
  "newline \<notin> set l \<Longrightarrow>
   readAscii_loop atof alloc (ifstream_open (l @ newline # tl0)) lin i s =
     (case line_effect atof alloc l i s of
        Inl r \<Rightarrow> r
      | Inr (i', s') \<Rightarrow> readAscii_loop atof alloc (ifstream_open tl0) l i' s')"
  by (simp add: readAscii_loop_step line_effect_def Let_def split: prod.splits option.splits)

lemma readAscii_loop_lines:
  assumes "\<forall>l\<in>set ls. newline \<notin> set l"
  shows "readAscii_loop atof alloc
           (ifstream_open (concat (map (\<lambda>l. l @ [newline]) ls) @ tail)) lin i s =
         (case lines_effect atof alloc ls i s of
            Inl r \<Rightarrow> r
          | Inr (i', s') \<Rightarrow> readAscii_loop atof alloc (ifstream_open tail) lin' i' s')"
  using assms
proof (induction ls arbitrary: lin i s)
  case Nil
  have "good (ifstream_open tail)" by (simp add: good_def ifstream_open_def)
  then show ?case by (simp add: readAscii_loop_line [where ?l1.0 = lin and ?l2.0 = lin'])
next
  case (Cons l ls)
  then have l: "newline \<notin> set l" and ls: "\<forall>l\<in>set ls. newline \<notin> set l" by simp_all
  show ?case
    by (simp add: readAscii_loop_line_effect [OF l] Cons.IH [OF ls]
          split: sum.splits prod.splits)
qed

lemma readAscii_loop_rejected:
  assumes "tail \<noteq> []" and "rejected s (first_line tail)"
  shows "readAscii_loop atof alloc (ifstream_open tail) lin i s = (Inr False, s)"
proof -
  from assms(1) obtain f' where g: "getline (ifstream_open tail) lin = (f', first_line tail)"
    and nf: "\<not> failbit f'" using getline_open by blast
  show ?thesis
    using assms(2) nf line0_first_line [of tail]
    by (subst readAscii_loop.simps) (auto simp add: g rejected_def Let_def)
qed

lemma lines_effect_comments:
  "\<forall>l\<in>set ls. line0 l = CHR ''#'' \<Longrightarrow> lines_effect atof alloc ls i s = Inr (i, s)"
  by (induction ls) (simp_all add: line_effect_def)

section \<open>The binary format\<close>

text \<open>
  The four bytes written for a word are read back as that word, so the words of a file
  written by \<open>write\<close> are the magic number, the version and the five cells of each
  event in turn.  Read back, such a file yields the positions and values it was written
  from, and the reciprocal of each radius above \<open>\<epsilon>\<close>.
\<close>

lemma byte_char_of: "byte (char_of (unat v)) = take_bit 8 v"
proof -
  have "byte (char_of (unat v)) = of_nat (take_bit 8 (unat v))"
    by (simp add: byte_def take_bit_eq_mod)
  also have "\<dots> = take_bit 8 (of_nat (unat v))"
    by (simp only: take_bit_of_nat)
  finally show ?thesis by simp
qed

lemma bytes_join:
  "take_bit 8 w OR push_bit 8 (take_bit 8 (drop_bit 8 w)) OR
   push_bit 16 (take_bit 8 (drop_bit 16 w)) OR push_bit 24 (take_bit 8 (drop_bit 24 w)) = (w :: 32 word)"
  apply (rule bit_eqI)
  apply (auto simp add: bit_simps)
  subgoal for n by (cases "24 \<le> n") simp_all
  done

lemma word_at_bytes_0: "word_at (bytes_of w @ rest) 0 = w"
  by (simp add: word_at_def bytes_of_def byte_char_of bytes_join)

lemma word_at_bytes_Suc: "word_at (bytes_of w @ rest) (Suc k) = word_at rest k"
  by (simp add: word_at_def bytes_of_def nth_append add.commute)

lemma word_at_concat:
  "k < length ws \<Longrightarrow> word_at (concat (map bytes_of ws) @ rest) k = ws ! k"
proof (induction ws arbitrary: k)
  case Nil
  then show ?case by simp
next
  case (Cons w ws)
  show ?case
  proof (cases k)
    case 0
    then show ?thesis by (simp add: word_at_bytes_0)
  next
    case (Suc m)
    with Cons show ?thesis by (simp add: word_at_bytes_Suc)
  qed
qed

lemma length_concat_bytes: "length (concat (map bytes_of ws)) = 4 * length ws"
  by (induction ws) (simp_all add: bytes_of_def)

lemma those_cells_Some: "those_cells cs = Some vs \<Longrightarrow> cs = map Some vs"
proof (induction cs arbitrary: vs rule: those_cells.induct)
  case 1
  then show ?case by simp
next
  case (2 cs)
  then show ?case by simp
next
  case (3 v cs)
  then show ?case by (auto split: option.splits)
qed

lemma concat_blocks_nth:
  "(\<And>j. length (f j) = 5) \<Longrightarrow> i < n \<Longrightarrow> k < 5 \<Longrightarrow>
   concat (map f [0..<n]) ! (5 * i + k) = f i ! k"
proof (induction n)
  case 0
  then show ?case by simp
next
  case (Suc n)
  have len: "length (concat (map f [0..<n])) = 5 * n"
    using Suc.prems(1) by (induction n) simp_all
  show ?case
  proof (cases "i < n")
    case True
    with Suc len show ?thesis by (simp add: nth_append)
  next
    case False
    with Suc.prems have "i = n" by simp
    with Suc.prems len show ?thesis by (simp add: nth_append)
  qed
qed

lemma list5: "length xs = 5 \<Longrightarrow> xs = [xs ! 0, xs ! 1, xs ! 2, xs ! 3, xs ! 4]"
  by (auto simp add: list_eq_iff_nth_eq less_Suc_eq_0_disj eval_nat_numeral)

lemma write_binary_layout:
  assumes "write_binary b = Some fl"
  shows "\<exists>vs. fl = concat (map bytes_of (magic # version # vs)) \<and>
              length vs = 5 * numEvents b \<and>
              (\<forall>i<numEvents b. event_cells b i =
                 [Some (vs ! (5 * i)), Some (vs ! (5 * i + 1)), Some (vs ! (5 * i + 2)),
                  Some (vs ! (5 * i + 3)), Some (vs ! (5 * i + 4))])"
proof -
  let ?n = "numEvents b"
  let ?cs = "concat (map (event_cells b) [0..<?n])"
  from assms obtain vs where t: "those_cells ?cs = Some vs"
    and fl: "fl = concat (map bytes_of (magic # version # vs))"
    by (auto simp add: write_binary_def split: option.splits)
  from t have cs: "?cs = map Some vs" by (rule those_cells_Some)
  have len5: "length (event_cells b j) = 5" for j by (simp add: event_cells_def)
  have "length (concat (map (event_cells b) [0..<m])) = 5 * m" for m
    by (induction m) (simp_all add: len5)
  then have lcs: "length ?cs = 5 * ?n" .
  with cs have lvs: "length vs = 5 * ?n" by (metis length_map)
  have cell: "event_cells b i ! k = Some (vs ! (5 * i + k))" if "i < ?n" "k < 5" for i k
  proof -
    have "event_cells b i ! k = ?cs ! (5 * i + k)"
      using concat_blocks_nth [of "event_cells b" i ?n k] len5 that by simp
    also have "\<dots> = Some (vs ! (5 * i + k))"
      using that lvs unfolding cs by simp
    finally show ?thesis .
  qed
  have "event_cells b i =
          [Some (vs ! (5 * i)), Some (vs ! (5 * i + 1)), Some (vs ! (5 * i + 2)),
           Some (vs ! (5 * i + 3)), Some (vs ! (5 * i + 4))]" if "i < ?n" for i
    using list5 [OF len5 [of i]] cell [OF that, of 0] cell [OF that, of 1] cell [OF that, of 2]
      cell [OF that, of 3] cell [OF that, of 4] by simp
  with fl lvs show ?thesis by blast
qed

lemma readBinary_loop_cells:
  assumes "block_ok s" and "numEvents s = n" and "index = 2 + 5 * i" and "i \<le> n"
  shows "numEvents (readBinary_loop fl n i index s) = n \<and>
         block_ok (readBinary_loop fl n i index s) \<and>
         (\<forall>j<n. event_cells (readBinary_loop fl n i index s) j =
            (if j < i then event_cells s j
             else [Some (word_at fl (2 + 5 * j)), Some (word_at fl (2 + 5 * j + 1)),
                   Some (word_at fl (2 + 5 * j + 2)),
                   if flt epsilon (fabs (word_at fl (2 + 5 * j + 3)))
                   then Some (fdiv one_f (word_at fl (2 + 5 * j + 3)))
                   else peek (getRadii s) j,
                   Some (word_at fl (2 + 5 * j + 4))]))"
  using assms
proof (induction fl n i index s rule: readBinary_loop.induct)
  case (1 fl n i index s)
  show ?case
  proof (cases "i < n")
    case False
    then have "readBinary_loop fl n i index s = s"
      by (subst readBinary_loop.simps) simp
    with False "1.prems" show ?thesis by simp
  next
    case True
    let ?pos = "Vector3f (word_at fl index) (word_at fl (index + 1)) (word_at fl (index + 2))"
    let ?s2 = "update i ?pos (word_at fl (index + 3)) (word_at fl (index + 4)) s"
    let ?L = "readBinary_loop fl n (i + 1) (index + 5) ?s2"
    have L: "readBinary_loop fl n i index s = ?L"
      using True by (subst readBinary_loop.simps) simp
    have ok2: "block_ok ?s2" using "1.prems"(1) by (rule block_ok_update)
    have n2: "numEvents ?s2 = n" using "1.prems"(2) by (simp add: update_frame)
    have ih: "numEvents ?L = n \<and> block_ok ?L \<and>
         (\<forall>j<n. event_cells ?L j =
            (if j < i + 1 then event_cells ?s2 j
             else [Some (word_at fl (2 + 5 * j)), Some (word_at fl (2 + 5 * j + 1)),
                   Some (word_at fl (2 + 5 * j + 2)),
                   if flt epsilon (fabs (word_at fl (2 + 5 * j + 3)))
                   then Some (fdiv one_f (word_at fl (2 + 5 * j + 3)))
                   else peek (getRadii ?s2) j,
                   Some (word_at fl (2 + 5 * j + 4))]))"
      using "1.IH" [OF True ok2 n2] "1.prems"(3) True by simp
    have in_n: "i < numEvents s" using True "1.prems"(2) by simp
    have same: "event_cells ?s2 i =
        [Some (word_at fl (2 + 5 * i)), Some (word_at fl (2 + 5 * i + 1)),
         Some (word_at fl (2 + 5 * i + 2)),
         if flt epsilon (fabs (word_at fl (2 + 5 * i + 3)))
         then Some (fdiv one_f (word_at fl (2 + 5 * i + 3)))
         else peek (getRadii s) i,
         Some (word_at fl (2 + 5 * i + 4))]"
      using event_cells_update_same [OF "1.prems"(1) in_n] "1.prems"(3) by simp
    have other: "event_cells ?s2 j = event_cells s j \<and> peek (getRadii ?s2) j = peek (getRadii s) j"
      if "j < n" "j \<noteq> i" for j
      using event_cells_update_other [OF "1.prems"(1) in_n, of j]
            update_other_event [OF "1.prems"(1) in_n, of j] that "1.prems"(2) by auto
    have cells: "event_cells ?L j =
            (if j < i then event_cells s j
             else [Some (word_at fl (2 + 5 * j)), Some (word_at fl (2 + 5 * j + 1)),
                   Some (word_at fl (2 + 5 * j + 2)),
                   if flt epsilon (fabs (word_at fl (2 + 5 * j + 3)))
                   then Some (fdiv one_f (word_at fl (2 + 5 * j + 3)))
                   else peek (getRadii s) j,
                   Some (word_at fl (2 + 5 * j + 4))])" if j: "j < n" for j
    proof (cases "j = i")
      case True
      with ih j same show ?thesis by simp
    next
      case False
      with ih j other [OF j False] show ?thesis by auto
    qed
    show ?thesis unfolding L using ih cells by blast
  qed
qed

lemma binary_round_trip:
  assumes w: "write_binary b = Some fl" and ok: "block_ok s"
    and sz: "numEvents b * 20 < 2 ^ 64" and al: "alloc (numEvents b) \<noteq> Alloc_failed"
  shows "\<exists>s'. read atof alloc fl s = (Inr True, s') \<and> numEvents s' = numEvents b \<and>
           (\<forall>i<numEvents b.
              peek (getPositionsX s') i = peek (getPositionsX b) i \<and>
              peek (getPositionsY s') i = peek (getPositionsY b) i \<and>
              peek (getPositionsZ s') i = peek (getPositionsZ b) i \<and>
              peek (getValues s') i = peek (getValues b) i \<and>
              (\<forall>r. peek (getRadii b) i = Some r \<and> flt epsilon (fabs r) \<longrightarrow>
                   peek (getRadii s') i = Some (fdiv one_f r)))"
proof -
  let ?n = "numEvents b"
  from write_binary_layout [OF w] obtain vs
    where fl: "fl = concat (map bytes_of (magic # version # vs))"
      and lvs: "length vs = 5 * ?n"
      and cells: "\<And>i. i < ?n \<Longrightarrow> event_cells b i =
                 [Some (vs ! (5 * i)), Some (vs ! (5 * i + 1)), Some (vs ! (5 * i + 2)),
                  Some (vs ! (5 * i + 3)), Some (vs ! (5 * i + 4))]"
    by blast
  have len: "length fl = 8 + 20 * ?n"
    unfolding fl length_concat_bytes by (simp add: lvs)
  have wa: "word_at fl k = (magic # version # vs) ! k" if "k < 2 + 5 * ?n" for k
    using word_at_concat [of k "magic # version # vs" "[]"] that lvs unfolding fl by simp
  have w0: "word_at fl 0 = magic" and w1: "word_at fl (Suc 0) = version"
    using wa [of 0] wa [of "Suc 0"] by simp_all
  have wv: "word_at fl (2 + 5 * j + k) = vs ! (5 * j + k)" if "j < ?n" "k < 5" for j k
    using wa [of "2 + 5 * j + k"] that by simp
  obtain s1 where r: "resize (alloc ?n) ?n s = (None, s1)"
    using resize_succeeds [OF al sz, of s] by (cases "resize (alloc ?n) ?n s") simp
  from block_ok_resize [OF ok sz r] have ok1: "block_ok s1" and n1: "numEvents s1 = ?n"
    by simp_all
  let ?L = "readBinary_loop fl ?n 0 2 s1"
  have rb: "readBinary alloc fl s = (Inr True, ?L)"
    by (simp add: readBinary_def Let_def len isBinary_def w0 w1 getBinarySize_def r)
  from readBinary_loop_cells [OF ok1 n1, of 2 0 fl]
  have nL: "numEvents ?L = ?n"
    and cL: "\<And>j. j < ?n \<Longrightarrow> event_cells ?L j =
               [Some (word_at fl (2 + 5 * j)), Some (word_at fl (2 + 5 * j + 1)),
                Some (word_at fl (2 + 5 * j + 2)),
                if flt epsilon (fabs (word_at fl (2 + 5 * j + 3)))
                then Some (fdiv one_f (word_at fl (2 + 5 * j + 3)))
                else peek (getRadii s1) j,
                Some (word_at fl (2 + 5 * j + 4))]"
    by simp_all
  have ev: "peek (getPositionsX ?L) i = peek (getPositionsX b) i \<and>
            peek (getPositionsY ?L) i = peek (getPositionsY b) i \<and>
            peek (getPositionsZ ?L) i = peek (getPositionsZ b) i \<and>
            peek (getValues ?L) i = peek (getValues b) i \<and>
            (\<forall>r. peek (getRadii b) i = Some r \<and> flt epsilon (fabs r) \<longrightarrow>
                 peek (getRadii ?L) i = Some (fdiv one_f r))" if i: "i < ?n" for i
    using cL [OF i] cells [OF i] wv [OF i, of 0] wv [OF i, of 1] wv [OF i, of 2]
      wv [OF i, of 3] wv [OF i, of 4]
    by (simp add: event_cells_def)
  show ?thesis using rb nL ev by (simp add: read_def)
qed

section \<open>The chunk window\<close>

text \<open>
  The sum \<open>chunkIndex + numChunks\<close> is a \<open>size_t\<close> sum and wraps: the window that starts
  at the largest index and spans two chunks passes both checks.
\<close>

lemma load_window_sum_wraps:
  "load 4 load' (- 1) 2 s = load' (- 1) 2 s"
  by (simp add: load_def)

section \<open>The claims\<close>

text \<open>
  C1 (the code departs from the claim).  After a binary round trip the stored radius
  of an event whose radius in the file has \<open>|radius| \<le> \<epsilon>\<close> is claimed to be exactly
  that radius.  The store \<open>tiny_radius\<close> holds one event with stored radius \<open>2^-24\<close>;
  \<open>write\<close> produces \<open>tiny_radius_file\<close>, \<open>read\<close> accepts it, and the radius cell of
  the buffer read back has never been written.
\<close>

theorem small_stored_radius_lost_on_round_trip:
  "write_binary tiny_radius = Some tiny_radius_file \<and>
   peek (getRadii tiny_radius) 0 = Some (frnd (1 / 16777216)) \<and>
   \<not> flt epsilon (fabs (frnd (1 / 16777216))) \<and>
   fst (read atof_digits memalign tiny_radius_file store0) = Inr True \<and>
   peek (getPositionsX (snd (read atof_digits memalign tiny_radius_file store0))) 0
     = peek (getPositionsX tiny_radius) 0 \<and>
   peek (getValues (snd (read atof_digits memalign tiny_radius_file store0))) 0
     = peek (getValues tiny_radius) 0 \<and>
   peek (getRadii (snd (read atof_digits memalign tiny_radius_file store0))) 0 = None"
  apply (simp add: tiny_radius_written tiny_radius_read)
  apply (simp add: tiny_radius_state getRadii_def getPositionsX_def getValues_def peek_def offs
          float_vals2)
  done

text \<open>
  C2 (the code departs from the claim).  An in-bounds \<open>update\<close> whose radius has
  \<open>|radius| \<le> \<epsilon>\<close> is claimed to store the literal radius in the radius column.  The
  source has no store on that path.  Updating event 0 of the two-event store with
  radius 0 leaves the reciprocal \<open>1/2\<close> of the earlier radius in the column, and in a
  freshly allocated one-event store the radius cell stays unwritten.
\<close>

theorem update_small_radius_not_stored:
  "peek (getRadii (update 0 (Vector3f (frnd 1) (frnd 2) (frnd 3)) (frnd 0) (frnd 5)
                      two_events)) 0 = Some (frnd (1/2)) \<and>
   peek (getRadii (update 0 (Vector3f (frnd 1) (frnd 2) (frnd 3)) (frnd 0) (frnd 5)
                      (snd (resize Memalign_ok 1 store0)))) 0 = None"
  by (simp add: two_events_state buffer_defs offs frnd_vals float_vals getRadii_def peek_def)

text \<open>
  C3 (as amended).  Take a file that fails the checks of the binary reader and that
  consists of complete lines which the text reader accepts, starting from the buffer
  \<open>s\<close> and leaving the buffer \<open>s'\<close>, followed by a line it rejects in \<open>s'\<close>: no
  comment and no \<open>Number of events\<close> line, with the buffer empty or the line not having
  five tokens.  Then \<open>readBinary\<close> returns \<open>false\<close> and leaves the buffer as it was, and
  \<open>read\<close> returns \<open>false\<close> with the buffer \<open>s'\<close>: the lines before the rejected one
  are not rolled back.  When all of them are comments, and so when there are none, the
  buffer after \<open>read\<close> is the prior buffer.
\<close>

theorem failed_read_buffer:
  assumes "not_binary fl"
    and "fl = concat (map (\<lambda>l. l @ [newline]) ls) @ tail"
    and "\<forall>l\<in>set ls. newline \<notin> set l"
    and "lines_effect atof alloc ls 0 s = Inr (i', s')"
    and "tail \<noteq> []" and "rejected s' (first_line tail)"
  shows "readBinary alloc fl s = (Inr False, s) \<and>
         read atof alloc fl s = (Inr False, s') \<and>
         ((\<forall>l\<in>set ls. line0 l = CHR ''#'') \<longrightarrow> s' = s)"
proof -
  have rb: "readBinary alloc fl s = (Inr False, s)"
    using assms(1) by (rule readBinary_not_binary)
  have "readAscii atof alloc (Some fl) s = (Inr False, s')"
    unfolding readAscii_def assms(2)
    using readAscii_loop_lines [OF assms(3), where atof = atof and alloc = alloc
            and tail = tail and lin = "[]" and i = 0 and s = s and lin' = "[]"]
      readAscii_loop_rejected [OF assms(5,6), where atof = atof and alloc = alloc
            and lin = "[]" and i = i']
    by (simp add: assms(4))
  then have rd: "read atof alloc fl s = (Inr False, s')"
    using read_after_False [OF rb] by simp
  have "s' = s" if "\<forall>l\<in>set ls. line0 l = CHR ''#''"
    using lines_effect_comments [OF that, of atof alloc 0 s] assms(4) by simp
  with rb rd show ?thesis by blast
qed

text \<open>
  The theorem applied to a comment line followed by a line of three tokens, read into
  the two-event store, and to the file of the counterexample below.
\<close>

theorem failed_read_buffer_witness:
  "not_binary text_comment_bad \<and>
   newline \<notin> set ''# header'' \<and> line0 ''# header'' = CHR ''#'' \<and>
   rejected two_events (first_line ''1 2 3\<newline>'') \<and>
   readBinary memalign text_comment_bad two_events = (Inr False, two_events) \<and>
   read atof_digits memalign text_comment_bad two_events = (Inr False, two_events) \<and>
   not_binary text_short_line \<and>
   read atof_digits memalign text_short_line store0 =
     (Inr False, update 0 (Vector3f (frnd 1) (frnd 2) (frnd 3)) (frnd 2) (frnd 5)
                   (snd (resize Memalign_ok 2 store0)))"
proof -
  let ?s1 = "update 0 (Vector3f (frnd 1) (frnd 2) (frnd 3)) (frnd 2) (frnd 5)
               (snd (resize Memalign_ok 2 store0))"
  have nb: "not_binary text_comment_bad" "not_binary text_short_line"
    by (simp_all add: not_binary_def text_comment_bad_def text_short_line_def binary_defs)
  have nl: "\<forall>l\<in>set [''# header'']. newline \<notin> set l"
    "\<forall>l\<in>set [''Number of events: 2'', ''1 2 3 2 5'']. newline \<notin> set l"
    by (simp_all add: newline_def)
  have ne: "''1 2 3\<newline>'' \<noteq> []" "''4 5 6\<newline>'' \<noteq> []" by simp_all
  have n1: "numEvents ?s1 = 2"
    by (simp add: buffer_defs)
  have rj: "rejected two_events (first_line ''1 2 3\<newline>'')"
    "rejected ?s1 (first_line ''4 5 6\<newline>'')"
    by (simp_all add: rejected_def first_line_def newline_def line0_def tokens.simps isspace_def
          two_events_state n1)
  have c: "newline \<notin> set ''# header'' \<and> line0 ''# header'' = CHR ''#''"
    by (simp add: newline_def line0_def)
  from failed_read_buffer [OF nb(1) text_comment_bad_split [THEN conjunct1] nl(1)
         example_lines_effect [THEN conjunct1] ne(1) rj(1)]
       failed_read_buffer [OF nb(2) text_comment_bad_split [THEN conjunct2] nl(2)
         example_lines_effect [THEN conjunct2] ne(2) rj(2)]
  show ?thesis using nb rj(1) c by blast
qed

text \<open>
  C3 as stated fails on a text file whose second data line has three tokens: \<open>read\<close>
  returns \<open>false\<close>, but the empty buffer has been resized to two events and event 0 has
  been stored.
\<close>

theorem failed_read_changes_buffer:
  "\<not> isBinary text_short_line \<and> length (tokens ''4 5 6'') \<noteq> 5 \<and>
   fst (read atof_digits memalign text_short_line store0) = Inr False \<and>
   numEvents store0 = 0 \<and>
   numEvents (snd (read atof_digits memalign text_short_line store0)) = 2 \<and>
   peek (getValues (snd (read atof_digits memalign text_short_line store0))) 0 = Some (frnd 5)"
  apply (simp add: short_line_read)
  apply (simp add: text_short_line_def binary_defs tokens.simps isspace_def buffer_defs offs
          frnd_vals float_vals getValues_def peek_def)
  done

text \<open>
  C4 (as amended).  When the file has the wrong magic number, or the right magic number
  and no or a wrong version word, \<open>readBinary\<close> returns \<open>false\<close> with the buffer
  untouched and \<open>read\<close> continues with the text reader on the same file: its result
  is the result of \<open>readAscii\<close> on the prior buffer, and it is not \<open>true\<close>.
\<close>

theorem read_tries_text_after_bad_version:
  "length fl div 4 \<noteq> 0 \<Longrightarrow>
   \<not> isBinary fl \<or> (isBinary fl \<and> (length fl div 4 \<le> 1 \<or> word_at fl 1 \<noteq> version)) \<Longrightarrow>
   readBinary alloc fl s = (Inr False, s) \<and>
   read atof alloc fl s = readAscii atof alloc (Some fl) s \<and>
   fst (read atof alloc fl s) \<noteq> Inr True"
proof -
  assume "length fl div 4 \<noteq> 0"
    and "\<not> isBinary fl \<or> (isBinary fl \<and> (length fl div 4 \<le> 1 \<or> word_at fl 1 \<noteq> version))"
  then have rb: "readBinary alloc fl s = (Inr False, s)"
    by (auto simp add: readBinary_def Let_def)
  then have "read atof alloc fl s = readAscii atof alloc (Some fl) s"
    by (rule read_after_False)
  with rb readAscii_not_True [of atof alloc "Some fl" s] show ?thesis by simp
qed

theorem read_tries_text_after_bad_version_witness:
  "length bad_version_file div 4 \<noteq> 0 \<and> isBinary bad_version_file \<and>
   word_at bad_version_file 1 \<noteq> version \<and>
   readBinary memalign bad_version_file store0 = (Inr False, store0) \<and>
   read atof_digits memalign bad_version_file store0
     = readAscii atof_digits memalign (Some bad_version_file) store0 \<and>
   fst (read atof_digits memalign bad_version_file store0) \<noteq> Inr True"
proof -
  have h: "length bad_version_file div 4 \<noteq> 0 \<and> isBinary bad_version_file \<and>
           word_at bad_version_file 1 \<noteq> version"
    by (simp add: bad_version_bytes binary_defs)
  then show ?thesis
    using read_tries_text_after_bad_version
            [of bad_version_file memalign store0 atof_digits]
    by blast
qed

text \<open>
  C4 as stated fails on a file with the right magic number, version 2 and a line of
  text: the binary reader rejects it without touching the empty buffer, and \<open>read\<close>
  returns with the buffer resized to three events by the text reader.
\<close>

theorem bad_version_falls_back_to_text:
  "isBinary bad_version_file \<and> word_at bad_version_file 1 \<noteq> version \<and>
   readBinary memalign bad_version_file store0 = (Inr False, store0) \<and>
   numEvents store0 = 0 \<and>
   numEvents (snd (read atof_digits memalign bad_version_file store0)) = 3"
  apply (simp add: bad_version_read)
  apply (simp add: bad_version_bytes store0_state binary_defs)
  done

text \<open>
  C5.  \<open>getFrameRange\<close> for an event source over the interval \<open>[0, 10]\<close> with
  \<open>dt = 2\<close> is \<open>[0, 4)\<close> for \<open>duration = 3\<close> and the empty range \<open>[0, 0)\<close> for
  \<open>duration = 11\<close>; for a frame source with the same interval and \<open>dt\<close> it is
  \<open>[0, 5)\<close>.
\<close>

theorem getFrameRange_examples:
  "getFrameRange event (frnd 0, frnd 10) (s\<lparr>dt := frnd 2, duration := frnd 3\<rparr>) = Some (0, 4) \<and>
   getFrameRange event (frnd 0, frnd 10) (s\<lparr>dt := frnd 2, duration := frnd 11\<rparr>) = Some (0, 0) \<and>
   getFrameRange frame (frnd 0, frnd 10) (s\<lparr>dt := frnd 2\<rparr>) = Some (0, 5)"
  by (simp add: getFrameRange_def frnd_vals frame_range_vals)

text \<open>
  C6 (as amended).  For every buffer and every \<open>n\<close> strictly below the current capacity
  \<open>allocSize\<close>, \<open>resize (n)\<close> does not consult the allocator and changes nothing but
  the logical size \<open>numEvents\<close>.
\<close>

theorem resize_below_capacity:
  "numEvents' < allocSize s \<Longrightarrow>
   resize a numEvents' s = (None, s\<lparr>numEvents := numEvents'\<rparr>)"
  by (simp add: resize_def)

theorem resize_below_capacity_witness:
  "1 < allocSize two_events \<and>
   resize Alloc_failed 1 two_events = (None, two_events\<lparr>numEvents := 1\<rparr>)"
  using resize_below_capacity [of 1 two_events Alloc_failed] by (simp add: two_events_state)

text \<open>
  C6 as stated fails when \<open>n\<close> equals the capacity: \<open>resize (2)\<close> on the two-event
  store, whose capacity is 2, replaces the storage block.
\<close>

theorem resize_at_capacity_reallocates:
  "2 \<le> allocSize two_events \<and>
   events (snd (resize Memalign_ok 2 two_events)) \<noteq> events two_events"
  apply (simp add: two_events_state resize_def offs)
  apply (simp add: eval_nat_numeral)
  done

text \<open>
  C7 (as amended).  Across a sequence of calls of \<open>update\<close> on a buffer whose bounding
  box has no NaN coordinate, where the positions of the in-bounds calls have none
  either: the box after any prefix of the sequence lies within the box after the whole
  sequence; the final box encloses the position of every in-bounds call; it lies within
  every box that contains the initial box and encloses those positions; and a call
  whose index is out of bounds leaves the box as it is.
\<close>

theorem bounding_box_of_updates:
  assumes "nan_free_box (boundingBox s)"
    and "\<forall>p\<in>set (merged (numEvents s) (cs @ ds)). nan_free p"
  shows "box_within (boundingBox (updates cs s)) (boundingBox (updates (cs @ ds) s)) \<and>
         (\<forall>p\<in>set (merged (numEvents s) (cs @ ds)).
            encloses (boundingBox (updates (cs @ ds) s)) p) \<and>
         (\<forall>C. box_within (boundingBox s) C \<and>
               (\<forall>p\<in>set (merged (numEvents s) (cs @ ds)). encloses C p) \<longrightarrow>
               box_within (boundingBox (updates (cs @ ds) s)) C) \<and>
         (\<forall>i pos rad val. numEvents s \<le> i \<longrightarrow>
               boundingBox (update i pos rad val s) = boundingBox s)"
proof -
  let ?n = "numEvents s"
  from assms have n1: "\<forall>p\<in>set (merged ?n cs). nan_free p"
    and n2: "\<forall>p\<in>set (merged ?n ds). nan_free p" by (simp_all add: merged_append)
  have b1: "nan_free_box (boundingBox (updates cs s))"
    using foldl_merge_props [OF assms(1) n1] by (simp add: boundingBox_updates)
  have "box_within (boundingBox (updates cs s)) (foldl merge (boundingBox (updates cs s)) (merged ?n ds))"
    using foldl_merge_props [OF b1 n2] by simp
  then have g: "box_within (boundingBox (updates cs s)) (boundingBox (updates (cs @ ds) s))"
    by (simp add: updates_append boundingBox_updates)
  have e: "\<forall>p\<in>set (merged ?n (cs @ ds)). encloses (boundingBox (updates (cs @ ds) s)) p"
    using foldl_merge_props [OF assms] by (simp add: boundingBox_updates)
  have l: "box_within (boundingBox (updates (cs @ ds) s)) C"
    if "box_within (boundingBox s) C" "\<forall>p\<in>set (merged ?n (cs @ ds)). encloses C p" for C
    using foldl_merge_least [OF that] by (simp add: boundingBox_updates)
  have o: "boundingBox (update i pos rad val s) = boundingBox s" if "?n \<le> i" for i pos rad val
    using that by (simp add: boundingBox_update)
  show ?thesis using g e l o by blast
qed

theorem bounding_box_of_updates_witness:
  "nan_free_box (boundingBox empty_two) \<and>
   merged (numEvents empty_two) (calls_a @ calls_b) =
     [Vector3f (frnd 1) (frnd 2) (frnd 3), Vector3f (frnd 4) (frnd 5) (frnd 6)] \<and>
   nan_free (Vector3f (frnd 1) (frnd 2) (frnd 3)) \<and>
   nan_free (Vector3f (frnd 4) (frnd 5) (frnd 6)) \<and>
   box_within (boundingBox (updates calls_a empty_two))
              (boundingBox (updates (calls_a @ calls_b) empty_two)) \<and>
   encloses (boundingBox (updates (calls_a @ calls_b) empty_two))
            (Vector3f (frnd 4) (frnd 5) (frnd 6))"
proof -
  have h1: "nan_free_box (boundingBox empty_two)"
    by (simp add: empty_two_facts nan_free_box_def nan_free_def nan_vals)
  have m: "merged (numEvents empty_two) (calls_a @ calls_b) =
             [Vector3f (frnd 1) (frnd 2) (frnd 3), Vector3f (frnd 4) (frnd 5) (frnd 6)]"
    by (simp add: empty_two_facts calls_a_def calls_b_def)
  have n: "nan_free (Vector3f (frnd 1) (frnd 2) (frnd 3)) \<and>
           nan_free (Vector3f (frnd 4) (frnd 5) (frnd 6))"
    by (simp add: nan_free_def frnd_vals nan_vals)
  have h2: "\<forall>p\<in>set (merged (numEvents empty_two) (calls_a @ calls_b)). nan_free p"
    unfolding m using n by simp
  have "Vector3f (frnd 4) (frnd 5) (frnd 6) \<in> set (merged (numEvents empty_two) (calls_a @ calls_b))"
    unfolding m by simp
  with bounding_box_of_updates [OF h1 h2] h1 m n show ?thesis by blast
qed

text \<open>
  C7 as stated fails for a call with an index out of bounds: its position is not merged.
\<close>

theorem out_of_range_update_not_merged:
  "\<not> encloses (boundingBox (update 2 (Vector3f (frnd 10) (frnd 10) (frnd 10)) (frnd 2) (frnd 5)
                                    two_events))
              (Vector3f (frnd 10) (frnd 10) (frnd 10))"
  by (simp add: two_events_state update_def encloses_def frnd_vals nan_vals)

text \<open>
  C8 (the code departs from the claim).  An empty line between data lines is claimed to
  leave the result of reading unchanged.  Without the empty line the two-event text
  file yields the two-event store; with it, reading stops at the empty line and the
  value of event 1 is never stored.
\<close>

theorem blank_line_aborts_read:
  "snd (readAscii atof_digits memalign (Some text_two_events) store0) = two_events \<and>
   peek (getValues two_events) 1 = Some (frnd 7) \<and>
   numEvents (snd (readAscii atof_digits memalign (Some text_blank_line) store0)) = 2 \<and>
   peek (getValues (snd (readAscii atof_digits memalign (Some text_blank_line) store0))) 1 = None"
  apply (simp add: text_two_events_def text_blank_line_def two_events_state)
  apply (simp add: text_defs buffer_defs offs frnd_vals float_vals fminmax_vals getValues_def peek_def)
  apply (simp add: eval_nat_numeral)
  done




text \<open>
  C10.  Every column accessor points \<open>numEvents\<close> times its column offset into the
  storage block.  The shrink \<open>resize (1)\<close> of the two-event store changes nothing but
  \<open>numEvents\<close>, and afterwards the accessors read at ordinal 0 what was stored for
  other columns: the y column yields the x position 4 of event 1 instead of 2, and the
  value column yields the z position 3 of event 0 instead of 5.
\<close>

theorem accessor_columns_after_shrink:
  "getPositionsX s = drop (numEvents s * 0) (events s) \<and>
   getPositionsY s = drop (numEvents s * 1) (events s) \<and>
   getPositionsZ s = drop (numEvents s * 2) (events s) \<and>
   getRadii s = drop (numEvents s * 3) (events s) \<and>
   getValues s = drop (numEvents s * 4) (events s) \<and>
   numEvents two_events = 2 \<and>
   resize a 1 two_events = (None, two_events\<lparr>numEvents := 1\<rparr>) \<and>
   peek (getPositionsY two_events) 0 = Some (frnd 2) \<and>
   peek (getPositionsY (snd (resize a 1 two_events))) 0 = Some (frnd 4) \<and>
   frnd 4 \<noteq> frnd 2 \<and>
   peek (getValues two_events) 0 = Some (frnd 5) \<and>
   peek (getValues (snd (resize a 1 two_events))) 0 = Some (frnd 3) \<and>
   frnd 3 \<noteq> frnd 5"
  by (simp add: getPositionsX_def getPositionsY_def getPositionsZ_def getRadii_def getValues_def
        offs two_events_state resize_def peek_def frnd_vals)

end
